(* ===== verification/Prelude.thy ===== *)
theory Prelude imports Main begin

text \<open>
  What every other theory of the development shares: the collections of simplification
  rules, Go's 64-bit integers with their wrap-around, time.Time and time.Duration with the
  saturating subtraction of the standard library, and list and option lemmas used by more
  than one component.
\<close>

section \<open>Collections\<close>

named_theorems run_simps
  \<open>what the evaluation of a concrete schedule unfolds\<close>

section \<open>Results\<close>

text \<open>
  A Go function that returns a value and an error is a sum: \<open>Inl\<close> the error, \<open>Inr\<close> the
  value. A Go function that returns an error only returns an option: \<open>None\<close> is nil.
\<close>

type_synonym ('e, 'a) result = "'e + 'a"

definition is_ok :: "('e, 'a) result \<Rightarrow> bool" where
  "is_ok r = (case r of Inl _ \<Rightarrow> False | Inr _ \<Rightarrow> True)"

lemma is_ok_simps [simp]: "is_ok (Inr a)" "\<not> is_ok (Inl e)"
  by (simp_all add: is_ok_def)

section \<open>64-bit integers\<close>

text \<open>
  Go's int and int64 are 64 bits wide on the two platforms the program is built for. A value
  is an \<open>int\<close>; an operation that can leave the range is followed by \<open>wrap64\<close>.
\<close>

definition min_int64 :: int where "min_int64 = - (2 ^ 63)"

definition max_int64 :: int where "max_int64 = 2 ^ 63 - 1"

definition wrap64 :: "int \<Rightarrow> int" where
  "wrap64 x = (x + 2 ^ 63) mod 2 ^ 64 - 2 ^ 63"

definition int64 :: "int \<Rightarrow> bool" where
  "int64 x \<longleftrightarrow> min_int64 \<le> x \<and> x \<le> max_int64"

lemma wrap64_id: "int64 x \<Longrightarrow> wrap64 x = x"
  by (simp add: wrap64_def int64_def min_int64_def max_int64_def)

lemma wrap64_range: "int64 (wrap64 x)"
proof -
  have "0 \<le> (x + 2 ^ 63) mod 2 ^ 64" "(x + 2 ^ 63) mod 2 ^ 64 < (2 ^ 64 :: int)"
    by simp_all
  then show ?thesis
    unfolding wrap64_def int64_def min_int64_def max_int64_def by simp
qed

section \<open>Time\<close>

text \<open>
  A time.Time is the number of nanoseconds since the zero time (midnight UTC, 1 January of
  year 1), so Go's zero value is 0. A time.Duration is a number of nanoseconds.
\<close>

type_synonym time = int

type_synonym duration = int

definition second :: duration where "second = 1000000000"

definition minute :: duration where "minute = 60 * second"

definition hour :: duration where "hour = 60 * minute"

text \<open>Time.Sub returns the closest Duration when the difference does not fit one.\<close>

definition time_sub :: "time \<Rightarrow> time \<Rightarrow> duration" where
  "time_sub t u = max min_int64 (min max_int64 (t - u))"

lemma time_sub_exact: "int64 (t - u) \<Longrightarrow> time_sub t u = t - u"
  by (simp add: time_sub_def int64_def)

lemma time_sub_mono: "t \<le> t' \<Longrightarrow> time_sub t u \<le> time_sub t' u"
  by (simp add: time_sub_def)

lemma time_sub_gt_iff:
  "int64 d \<Longrightarrow> d < max_int64 \<Longrightarrow> d < time_sub t u \<longleftrightarrow> d < t - u"
  by (auto simp: time_sub_def int64_def min_int64_def max_int64_def)

section \<open>Lists\<close>

lemma sum_list_update_add:
  "i < length xs \<Longrightarrow> sum_list (map f (xs[i := x])) + f (xs ! i) = sum_list (map f xs) + (f x :: 'a :: comm_monoid_add)"
  by (induction xs arbitrary: i) (auto simp: ac_simps split: nat.splits)

lemmas sum_list_update_nat = sum_list_update_add [where 'a = nat]

lemma sum_list_update_int:
  "i < length xs \<Longrightarrow> sum_list (map f (xs[i := x])) = sum_list (map f xs) - f (xs ! i) + (f x :: int)"
  by (induction xs arbitrary: i) (auto split: nat.splits)

lemma list_all_update:
  "list_all P xs \<Longrightarrow> P x \<Longrightarrow> list_all P (xs[i := x])"
  unfolding list_all_iff using set_update_subset_insert [of xs i x] by blast

section \<open>Inevitability\<close>

text \<open>
  \<open>inevitable R P x\<close>: from \<open>x\<close> every execution of the step relation \<open>R\<close> reaches a state with
  \<open>P\<close> before it ends, however its choices are made.
\<close>

inductive inevitable :: "('a \<Rightarrow> 'a \<Rightarrow> bool) \<Rightarrow> ('a \<Rightarrow> bool) \<Rightarrow> 'a \<Rightarrow> bool" for R P where
  inev_now: "P x \<Longrightarrow> inevitable R P x"
| inev_later: "R x y \<Longrightarrow> (\<And>z. R x z \<Longrightarrow> inevitable R P z) \<Longrightarrow> inevitable R P x"

text \<open>Whatever is never stuck before \<open>P\<close>, stays within an invariant and terminates, reaches \<open>P\<close>.\<close>

lemma inevitable_by_progress:
  assumes "wf {(z, x). R x z}" and "I x"
    and pres: "\<And>x z. I x \<Longrightarrow> R x z \<Longrightarrow> I z" and prog: "\<And>x. I x \<Longrightarrow> \<not> P x \<Longrightarrow> \<exists>z. R x z"
  shows "inevitable R P x"
  using assms(1,2)
proof (induction x rule: wf_induct_rule)
  case (less x)
  show ?case
  proof (cases "P x")
    case False
    with prog less.prems obtain z where "R x z" by blast
    then show ?thesis by (rule inev_later) (use less pres in blast)
  qed (rule inev_now)
qed

text \<open>
  Executions in which some steps are not for the program to stop: \<open>limited R T\<close> takes a step
  of \<open>R\<close>, or one of \<open>T\<close> for which it pays from a budget. What is \<open>fairly_inevitable\<close> is reached
  for every budget, so in every execution in which steps of \<open>T\<close> come at any time, in any
  number, but not for ever.
\<close>

inductive limited :: "('a \<Rightarrow> 'a \<Rightarrow> bool) \<Rightarrow> ('a \<Rightarrow> 'a \<Rightarrow> bool) \<Rightarrow> nat \<times> 'a \<Rightarrow> nat \<times> 'a \<Rightarrow> bool" for R T where
  lim_free: "R x y \<Longrightarrow> limited R T (k, x) (k, y)"
| lim_paid: "T x y \<Longrightarrow> limited R T (Suc k, x) (k, y)"

inductive_cases limitedE: "limited R T p q"

definition fairly_inevitable :: "('a \<Rightarrow> 'a \<Rightarrow> bool) \<Rightarrow> ('a \<Rightarrow> 'a \<Rightarrow> bool) \<Rightarrow> ('a \<Rightarrow> bool) \<Rightarrow> 'a \<Rightarrow> bool" where
  "fairly_inevitable R T P x \<longleftrightarrow> (\<forall>k. inevitable (limited R T) (\<lambda>q. P (snd q)) (k, x))"

lemma wf_limited:
  assumes "wf {(y, x). R x y}"
  shows "wf {(q, p). limited R T p q}"
  by (rule wf_subset [OF wf_lex_prod [OF wf_less_than assms]]) (auto elim: limitedE)

lemma fairly_inevitable_by_progress:
  assumes "wf {(z, x). R x z}" and "I x"
    and pres: "\<And>x z. I x \<Longrightarrow> R x z \<or> T x z \<Longrightarrow> I z" and prog: "\<And>x. I x \<Longrightarrow> \<not> P x \<Longrightarrow> \<exists>z. R x z"
  shows "fairly_inevitable R T P x"
  unfolding fairly_inevitable_def
proof
  fix k
  show "inevitable (limited R T) (\<lambda>q. P (snd q)) (k, x)"
  proof (rule inevitable_by_progress [OF wf_limited [OF assms(1)], where I = "\<lambda>q. I (snd q)"])
    show "I (snd (k, x))" using assms(2) by simp
    show "I (snd q)" if "I (snd p)" "limited R T p q" for p q
      using that pres by (auto elim: limitedE)
    show "\<exists>q. limited R T p q" if "I (snd p)" "\<not> P (snd p)" for p
      using prog [OF that] lim_free by (metis prod.collapse)
  qed
qed

lemma inevitable_mono: "inevitable R P x \<Longrightarrow> (\<And>y. P y \<Longrightarrow> Q y) \<Longrightarrow> inevitable R Q x"
  by (induction rule: inevitable.induct) (blast intro: inevitable.intros)+

lemma inevitable_reaches: "inevitable R P x \<Longrightarrow> \<exists>y. R\<^sup>*\<^sup>* x y \<and> P y"
  by (induction rule: inevitable.induct) (blast intro: converse_rtranclp_into_rtranclp)+

lemma fairly_inevitable_reaches:
  assumes "fairly_inevitable R T P x"
  shows "\<exists>y. (\<lambda>x y. R x y \<or> T x y)\<^sup>*\<^sup>* x y \<and> P y"
proof -
  have "(limited R T)\<^sup>*\<^sup>* p q \<Longrightarrow> (\<lambda>x y. R x y \<or> T x y)\<^sup>*\<^sup>* (snd p) (snd q)" for p q
    by (induction rule: rtranclp_induct) (auto elim!: limitedE intro: rtranclp.rtrancl_into_rtrancl)
  with inevitable_reaches [of "limited R T" "\<lambda>q. P (snd q)" "(0, x)"] assms show ?thesis
    unfolding fairly_inevitable_def by fastforce
qed

end
