(* ===== verification/GoStrings.thy ===== *)
theory GoStrings imports Prelude begin

text \<open>
  The part of Go's strings, strconv and unicode/utf8 packages the program uses. A Go string
  is a sequence of bytes and an Isabelle \<open>char\<close> is a byte, so a Go string is a \<open>string\<close>. The
  case-folding table of the unicode package is the parameter \<open>u\<close> of \<open>to_lower\<close>: it is read
  at runes from 128 on only, ASCII is written out.
\<close>

section \<open>Prefixes, suffixes, substrings, trimming, joining\<close>

definition has_prefix :: "string \<Rightarrow> string \<Rightarrow> bool" where
  "has_prefix p s = (take (length p) s = p)"

definition has_suffix :: "string \<Rightarrow> string \<Rightarrow> bool" where
  "has_suffix p s = (length p \<le> length s \<and> drop (length s - length p) s = p)"

definition trim_prefix :: "string \<Rightarrow> string \<Rightarrow> string" where
  "trim_prefix p s = (if has_prefix p s then drop (length p) s else s)"

definition cut_prefix :: "string \<Rightarrow> string \<Rightarrow> string option" where
  "cut_prefix p s = (if has_prefix p s then Some (drop (length p) s) else None)"

fun contains :: "string \<Rightarrow> string \<Rightarrow> bool" where
  "contains [] p = (p = [])"
| "contains (c # s) p = (has_prefix p (c # s) \<or> contains s p)"

definition trim_right :: "char \<Rightarrow> string \<Rightarrow> string" where
  "trim_right c s = rev (dropWhile (\<lambda>x. x = c) (rev s))"

definition trim :: "char \<Rightarrow> string \<Rightarrow> string" where
  "trim c s = trim_right c (dropWhile (\<lambda>x. x = c) s)"

fun join :: "string \<Rightarrow> string list \<Rightarrow> string" where
  "join sep [] = []"
| "join sep [s] = s"
| "join sep (s # t # ts) = s @ sep @ join sep (t # ts)"

lemma has_prefix_iff: "has_prefix p s \<longleftrightarrow> (\<exists>t. s = p @ t)"
  unfolding has_prefix_def by (metis append_eq_conv_conj)

lemma has_suffix_iff: "has_suffix p s \<longleftrightarrow> (\<exists>t. s = t @ p)"
  unfolding has_suffix_def
  by (metis append_take_drop_id append_eq_append_conv diff_diff_cancel length_append
      length_drop le_add2 append_eq_conv_conj diff_add_inverse2)

lemma contains_iff: "contains s p \<longleftrightarrow> (\<exists>a b. s = a @ p @ b)"
proof (induction s)
  case Nil
  then show ?case by simp
next
  case (Cons c s)
  show ?case
  proof
    assume "contains (c # s) p"
    then show "\<exists>a b. c # s = a @ p @ b"
    proof (cases "has_prefix p (c # s)")
      case True
      then show ?thesis unfolding has_prefix_iff by (metis append_Nil)
    next
      case False
      with \<open>contains (c # s) p\<close> Cons.IH obtain a b where "s = a @ p @ b" by auto
      then have "c # s = (c # a) @ p @ b" by simp
      then show ?thesis by blast
    qed
  next
    assume "\<exists>a b. c # s = a @ p @ b"
    then obtain a b where ab: "c # s = a @ p @ b" by blast
    show "contains (c # s) p"
    proof (cases a)
      case Nil
      with ab have "has_prefix p (c # s)" by (simp add: has_prefix_iff)
      then show ?thesis by simp
    next
      case (Cons x xs)
      with ab have "s = xs @ p @ b" by simp
      then show ?thesis using Cons.IH by auto
    qed
  qed
qed

lemma cut_prefix_Some: "cut_prefix p s = Some t \<longleftrightarrow> s = p @ t"
  by (auto simp: cut_prefix_def has_prefix_iff)

section \<open>Decimal numbers\<close>

text \<open>strconv.Itoa and the verb \<open>%d\<close>.\<close>

definition digit_char :: "nat \<Rightarrow> char" where
  "digit_char d = char_of (48 + d)"

fun nat_str :: "nat \<Rightarrow> string" where
  "nat_str n = (if n < 10 then [digit_char n] else nat_str (n div 10) @ [digit_char (n mod 10)])"

declare nat_str.simps [simp del]

definition itoa :: "int \<Rightarrow> string" where
  "itoa i = (if i < 0 then CHR ''-'' # nat_str (nat (- i)) else nat_str (nat i))"

definition is_digit :: "char \<Rightarrow> bool" where
  "is_digit c = (48 \<le> (of_char c :: nat) \<and> (of_char c :: nat) \<le> 57)"

lemma of_char_digit_char [simp]: "d < 10 \<Longrightarrow> (of_char (digit_char d) :: nat) = 48 + d"
  by (simp add: digit_char_def)

lemma digit_char_inj: "d < 10 \<Longrightarrow> e < 10 \<Longrightarrow> digit_char d = digit_char e \<longleftrightarrow> d = e"
  by (metis add_left_cancel of_char_digit_char)

lemma is_digit_digit_char [simp]: "d < 10 \<Longrightarrow> is_digit (digit_char d)"
  by (simp add: is_digit_def)

lemma nat_str_digits: "c \<in> set (nat_str n) \<Longrightarrow> is_digit c"
proof (induction n rule: nat_str.induct)
  case (1 n)
  then show ?case
    using nat_str.simps [of n] by (auto split: if_splits)
qed

lemma nat_str_not_Nil [simp]: "nat_str n \<noteq> []"
  by (subst nat_str.simps) simp

lemma nat_str_inj: "nat_str m = nat_str n \<Longrightarrow> m = n"
proof (induction m arbitrary: n rule: nat_str.induct)
  case (1 m)
  show ?case
  proof (cases "m < 10"; cases "n < 10")
    assume "m < 10" "n < 10"
    with "1.prems" show ?thesis by (simp add: nat_str.simps [of m] nat_str.simps [of n] digit_char_inj)
  next
    assume "\<not> m < 10" "\<not> n < 10"
    with "1.prems" have "nat_str (m div 10) = nat_str (n div 10)" "m mod 10 = n mod 10"
      by (simp_all add: nat_str.simps [of m] nat_str.simps [of n] digit_char_inj)
    then show ?thesis using "1.IH" [OF \<open>\<not> m < 10\<close>]
      by (metis div_mult_mod_eq)
  next
    assume "m < 10" "\<not> n < 10"
    with "1.prems" have "[] = nat_str (n div 10)"
      by (simp add: nat_str.simps [of m] nat_str.simps [of n])
    then show ?thesis by (metis nat_str_not_Nil)
  next
    assume "\<not> m < 10" "n < 10"
    with "1.prems" have "nat_str (m div 10) = []"
      by (simp add: nat_str.simps [of m] nat_str.simps [of n])
    then show ?thesis by simp
  qed
qed

lemma minus_not_digit [simp]: "\<not> is_digit (CHR ''-'')"
  by (simp add: is_digit_def)

lemma itoa_inj: "itoa i = itoa j \<longleftrightarrow> i = j"
proof
  assume eq: "itoa i = itoa j"
  have neq: "CHR ''-'' # s \<noteq> nat_str n" for s n
    using nat_str_digits [of "CHR ''-''" n] by (metis list.set_intros(1) minus_not_digit)
  show "i = j"
    using eq neq neq [symmetric] by (auto simp: itoa_def dest!: nat_str_inj split: if_splits)
qed simp

lemma itoa_nonneg: "0 \<le> i \<Longrightarrow> itoa i = nat_str (nat i)"
  by (simp add: itoa_def)

lemma itoa_not_Nil [simp]: "itoa i \<noteq> []"
  by (simp add: itoa_def)

section \<open>Runes and UTF-8\<close>

definition rune_error :: nat where "rune_error = 65533"

definition byte :: "char \<Rightarrow> nat" where "byte c = of_char c"

definition cont :: "nat \<Rightarrow> nat \<Rightarrow> nat \<Rightarrow> bool" where
  "cont lo hi b = (lo \<le> b \<and> b \<le> hi)"

text \<open>
  utf8.DecodeRuneInString on a non-empty string: the rune and its width in bytes. An
  ill-formed sequence is the rune U+FFFD of width 1. The range of the second byte depends on
  the first (no overlong forms, no surrogates, nothing past U+10FFFF).
\<close>

definition second_range :: "nat \<Rightarrow> nat \<times> nat" where
  "second_range b = (if b = 224 then (160, 191) else if b = 237 then (128, 159)
     else if b = 240 then (144, 191) else if b = 244 then (128, 143) else (128, 191))"

definition rune_size :: "nat \<Rightarrow> nat" where
  "rune_size b = (if b < 128 then 1 else if b < 194 then 0 else if b < 224 then 2
     else if b < 240 then 3 else if b < 245 then 4 else 0)"

fun decode_rune :: "string \<Rightarrow> nat \<times> nat" where
  "decode_rune s =
    (let b = map byte s; b0 = b ! 0; n = rune_size b0; (lo, hi) = second_range b0 in
     if n = 1 then (b0, 1)
     else if n = 0 \<or> length s < n then (rune_error, 1)
     else if \<not> cont lo hi (b ! 1) then (rune_error, 1)
     else if n = 2 then ((b0 mod 32) * 64 + b ! 1 mod 64, 2)
     else if \<not> cont 128 191 (b ! 2) then (rune_error, 1)
     else if n = 3 then ((b0 mod 16) * 4096 + (b ! 1 mod 64) * 64 + b ! 2 mod 64, 3)
     else if \<not> cont 128 191 (b ! 3) then (rune_error, 1)
     else ((b0 mod 8) * 262144 + (b ! 1 mod 64) * 4096 + (b ! 2 mod 64) * 64 + b ! 3 mod 64, 4))"

declare decode_rune.simps [simp del]

lemma decode_rune_width: "0 < snd (decode_rune s)"
  by (simp add: decode_rune.simps Let_def split: prod.splits)

text \<open>The runes of \<^verbatim>\<open>for _, r := range s\<close>, in order.\<close>

function runes :: "string \<Rightarrow> nat list" where
  "runes [] = []"
| "runes (c # s) = (let (r, w) = decode_rune (c # s) in r # runes (drop w (c # s)))"
  by pat_completeness auto
termination
proof (relation "measure length")
  show "wf (measure length)" by simp
next
  fix c :: char and s x r w
  assume "x = decode_rune (c # s)" "(r, w) = x"
  then have "0 < w" using decode_rune_width [of "c # s"] by (metis snd_conv)
  then show "(drop w (c # s), c # s) \<in> measure length" by simp
qed

declare runes.simps(2) [simp del]

definition encode_rune :: "nat \<Rightarrow> string" where
  "encode_rune r =
    (if r < 128 then [char_of r]
     else if r < 2048 then [char_of (192 + r div 64), char_of (128 + r mod 64)]
     else if (55296 \<le> r \<and> r \<le> 57343) \<or> 1114111 < r
       then [char_of (239 :: nat), char_of (191 :: nat), char_of (189 :: nat)]
     else if r < 65536 then
       [char_of (224 + r div 4096), char_of (128 + r div 64 mod 64), char_of (128 + r mod 64)]
     else [char_of (240 + r div 262144), char_of (128 + r div 4096 mod 64),
           char_of (128 + r div 64 mod 64), char_of (128 + r mod 64)])"

definition ascii :: "char \<Rightarrow> bool" where "ascii c = (byte c < 128)"

lemma byte_less_256: "byte c < 256"
  unfolding byte_def by (metis of_char_of of_char_mod_256 mod_less_divisor zero_less_numeral)

lemma runes_ascii_Cons [simp]: "ascii c \<Longrightarrow> runes (c # s) = byte c # runes s"
  by (simp add: runes.simps(2) decode_rune.simps Let_def ascii_def rune_size_def split: prod.splits)

section \<open>Case folding\<close>

definition lower_byte :: "nat \<Rightarrow> nat" where
  "lower_byte b = (if 65 \<le> b \<and> b \<le> 90 then b + 32 else b)"

definition ascii_lower :: "char \<Rightarrow> char" where
  "ascii_lower c = char_of (lower_byte (byte c))"

text \<open>
  strings.ToLower: a fast path for ASCII strings, otherwise unicode.ToLower on every rune.
\<close>

definition to_lower :: "(nat \<Rightarrow> nat) \<Rightarrow> string \<Rightarrow> string" where
  "to_lower u s =
    (if list_all ascii s then map ascii_lower s
     else concat (map (\<lambda>r. encode_rune (if r < 128 then lower_byte r else u r)) (runes s)))"

lemma to_lower_ascii: "list_all ascii s \<Longrightarrow> to_lower u s = map ascii_lower s"
  by (simp add: to_lower_def)

lemma byte_char_of [simp]: "n < 256 \<Longrightarrow> byte (char_of n) = n"
  by (simp add: byte_def)

lemma char_of_byte [simp]: "char_of (byte c) = c"
  by (simp add: byte_def)

lemma byte_eq_iff: "byte c = byte d \<longleftrightarrow> c = d"
  by (metis char_of_byte)

definition is_lower :: "char \<Rightarrow> bool" where
  "is_lower c = (97 \<le> byte c \<and> byte c \<le> 122)"

definition is_upper :: "char \<Rightarrow> bool" where
  "is_upper c = (65 \<le> byte c \<and> byte c \<le> 90)"

lemma is_digit_byte: "is_digit c = (48 \<le> byte c \<and> byte c \<le> 57)"
  by (simp add: is_digit_def byte_def)

lemma ascii_lower_id: "\<not> is_upper c \<Longrightarrow> ascii_lower c = c"
  by (auto simp: ascii_lower_def lower_byte_def is_upper_def)

lemma map_ascii_lower_id: "list_all (\<lambda>c. \<not> is_upper c) s \<Longrightarrow> map ascii_lower s = s"
  by (induction s) (auto simp: ascii_lower_id)

lemma to_lower_id: "list_all (\<lambda>c. ascii c \<and> \<not> is_upper c) s \<Longrightarrow> to_lower u s = s"
  by (simp add: to_lower_ascii list_all_iff map_ascii_lower_id)

end
