(* ===== verification/GoRegexp.thy ===== *)
theory GoRegexp imports GoStrings begin

text \<open>
  The regular expressions of internal/config/config.go. Both patterns are anchored at both
  ends in every alternative, so regexp.MatchString is a match of the whole string. The
  matcher is by derivatives; \<open>matches_lang\<close> ties it to the language of the expression.
\<close>

section \<open>Expressions and the derivative matcher\<close>

datatype rx = RNone | REmpty | RCls "char \<Rightarrow> bool" | RAlt rx rx | RSeq rx rx | RStar rx

fun nullable :: "rx \<Rightarrow> bool" where
  "nullable RNone = False"
| "nullable REmpty = True"
| "nullable (RCls P) = False"
| "nullable (RAlt r s) = (nullable r \<or> nullable s)"
| "nullable (RSeq r s) = (nullable r \<and> nullable s)"
| "nullable (RStar r) = True"

fun deriv :: "char \<Rightarrow> rx \<Rightarrow> rx" where
  "deriv c RNone = RNone"
| "deriv c REmpty = RNone"
| "deriv c (RCls P) = (if P c then REmpty else RNone)"
| "deriv c (RAlt r s) = RAlt (deriv c r) (deriv c s)"
| "deriv c (RSeq r s) =
     (if nullable r then RAlt (RSeq (deriv c r) s) (deriv c s) else RSeq (deriv c r) s)"
| "deriv c (RStar r) = RSeq (deriv c r) (RStar r)"

fun matches :: "rx \<Rightarrow> string \<Rightarrow> bool" where
  "matches r [] = nullable r"
| "matches r (c # s) = matches (deriv c r) s"

section \<open>Languages\<close>

inductive_set star_of :: "string set \<Rightarrow> string set" for L where
  star_Nil: "[] \<in> star_of L"
| star_app: "v \<in> L \<Longrightarrow> w \<in> star_of L \<Longrightarrow> v @ w \<in> star_of L"

fun lang :: "rx \<Rightarrow> string set" where
  "lang RNone = {}"
| "lang REmpty = {[]}"
| "lang (RCls P) = {[c] |c. P c}"
| "lang (RAlt r s) = lang r \<union> lang s"
| "lang (RSeq r s) = {v @ w |v w. v \<in> lang r \<and> w \<in> lang s}"
| "lang (RStar r) = star_of (lang r)"

lemma nullable_lang: "nullable r \<longleftrightarrow> [] \<in> lang r"
  by (induction r) (auto intro: star_Nil)

lemma star_of_Cons_iff:
  "c # w \<in> star_of L \<longleftrightarrow> (\<exists>v x. c # v \<in> L \<and> x \<in> star_of L \<and> w = v @ x)"
proof
  have "z \<in> star_of L \<Longrightarrow> z = c # w \<Longrightarrow> \<exists>v x. c # v \<in> L \<and> x \<in> star_of L \<and> w = v @ x" for z
  proof (induction rule: star_of.induct)
    case (star_app v y)
    then show ?case by (cases v) auto
  qed simp
  then show "c # w \<in> star_of L \<Longrightarrow> \<exists>v x. c # v \<in> L \<and> x \<in> star_of L \<and> w = v @ x" by blast
next
  assume "\<exists>v x. c # v \<in> L \<and> x \<in> star_of L \<and> w = v @ x"
  then show "c # w \<in> star_of L" using star_of.star_app by fastforce
qed

lemma lang_deriv: "w \<in> lang (deriv c r) \<longleftrightarrow> c # w \<in> lang r"
proof (induction r arbitrary: w)
  case (RSeq r s)
  have split: "c # w = v @ x \<longleftrightarrow> (v = [] \<and> x = c # w) \<or> (\<exists>v'. v = c # v' \<and> w = v' @ x)" for v x
    by (cases v) auto
  show ?case
    using RSeq.IH by (auto simp: nullable_lang split)
next
  case (RStar r)
  then show ?case by (auto simp: star_of_Cons_iff)
qed auto

lemma matches_lang: "matches r w \<longleftrightarrow> w \<in> lang r"
  by (induction w arbitrary: r) (auto simp: nullable_lang lang_deriv)

lemma star_of_cls: "star_of {[c] |c. P c} = {w. list_all P w}"
proof
  show "star_of {[c] |c. P c} \<subseteq> {w. list_all P w}"
  proof
    fix w assume "w \<in> star_of {[c] |c. P c}"
    then show "w \<in> {w. list_all P w}" by induction auto
  qed
  have "list_all P w \<Longrightarrow> w \<in> star_of {[c] |c. P c}" for w
  proof (induction w)
    case (Cons a w)
    then show ?case using star_of.star_app [of "[a]" "{[c] |c. P c}" w] by simp
  qed (simp add: star_Nil)
  then show "{w. list_all P w} \<subseteq> star_of {[c] |c. P c}" by blast
qed

section \<open>The two patterns\<close>

definition name_char :: "char \<Rightarrow> bool" where
  "name_char c = (is_lower c \<or> is_digit c \<or> c = CHR ''-'')"

definition alnum_char :: "char \<Rightarrow> bool" where
  "alnum_char c = (is_lower c \<or> is_digit c)"

definition path_char :: "char \<Rightarrow> bool" where
  "path_char c = (is_upper c \<or> is_lower c \<or> is_digit c
     \<or> c = CHR ''.'' \<or> c = CHR ''_'' \<or> c = CHR ''-'')"

definition RPlus :: "rx \<Rightarrow> rx" where "RPlus r = RSeq r (RStar r)"

text \<open>\<^verbatim>\<open>^[a-z][a-z0-9-]*[a-z0-9]$|^[a-z]$\<close>\<close>

definition namePrefixPattern :: rx where
  "namePrefixPattern =
     RAlt (RSeq (RCls is_lower) (RSeq (RStar (RCls name_char)) (RCls alnum_char))) (RCls is_lower)"

text \<open>\<^verbatim>\<open>^[A-Za-z0-9._-]+(?:/[A-Za-z0-9._-]+)*$\<close>\<close>

definition workFolderPattern :: rx where
  "workFolderPattern =
     RSeq (RPlus (RCls path_char))
       (RStar (RSeq (RCls (\<lambda>c. c = CHR ''/'')) (RPlus (RCls path_char))))"

lemma lang_cls_seq: "lang (RSeq (RCls P) r) = {c # w |c w. P c \<and> w \<in> lang r}"
  by (auto, metis append_Cons append_Nil)

lemma lang_seq_cls: "lang (RSeq r (RCls P)) = {w @ [c] |c w. P c \<and> w \<in> lang r}"
  by auto

lemma lang_plus_cls: "lang (RPlus (RCls P)) = {w. w \<noteq> [] \<and> list_all P w}"
proof -
  have "lang (RPlus (RCls P)) = {v @ w |v w. v \<in> {[c] |c. P c} \<and> list_all P w}"
    by (simp add: RPlus_def star_of_cls)
  also have "\<dots> = {w. w \<noteq> [] \<and> list_all P w}"
  proof (intro set_eqI iffI)
    fix w assume "w \<in> {w. w \<noteq> [] \<and> list_all P w}"
    then obtain c w' where "w = [c] @ w'" "P c" "list_all P w'" by (cases w) auto
    then show "w \<in> {v @ w |v w. v \<in> {[c] |c. P c} \<and> list_all P w}" by blast
  qed auto
  finally show ?thesis .
qed

lemma namePrefix_matches:
  "matches namePrefixPattern s \<longleftrightarrow>
     s \<noteq> [] \<and> is_lower (hd s) \<and> list_all name_char s \<and> last s \<noteq> CHR ''-''"
proof -
  have dash: "\<not> is_lower (CHR ''-'')" by (simp add: is_lower_def byte_def)
  have "matches namePrefixPattern s \<longleftrightarrow>
     (\<exists>c w d. s = c # w @ [d] \<and> is_lower c \<and> list_all name_char w \<and> alnum_char d)
     \<or> (\<exists>c. s = [c] \<and> is_lower c)"
    unfolding matches_lang namePrefixPattern_def lang.simps(4) lang_cls_seq lang_seq_cls
      lang.simps(6) lang.simps(3) star_of_cls
    by auto
  also have "\<dots> \<longleftrightarrow>
     s \<noteq> [] \<and> is_lower (hd s) \<and> list_all name_char s \<and> last s \<noteq> CHR ''-''"
  proof (cases s)
    case (Cons c t)
    show ?thesis
    proof (cases t rule: rev_cases)
      case Nil
      with Cons dash show ?thesis by (auto simp: name_char_def)
    next
      case (snoc w d)
      with Cons dash show ?thesis by (auto simp: name_char_def alnum_char_def)
    qed
  qed simp
  finally show ?thesis .
qed

text \<open>The segments of a path between its slashes.\<close>

fun segments :: "string \<Rightarrow> string list" where
  "segments [] = [[]]"
| "segments (c # s) =
     (if c = CHR ''/'' then [] # segments s
      else (case segments s of [] \<Rightarrow> [[c]] | w # ws \<Rightarrow> (c # w) # ws))"

lemma segments_not_Nil [simp]: "segments s \<noteq> []"
  by (induction s) (auto split: list.splits)

lemma segments_app_slash:
  "\<forall>c \<in> set v. c \<noteq> CHR ''/'' \<Longrightarrow> segments (v @ CHR ''/'' # s) = v # segments s"
  by (induction v) auto

lemma segments_no_slash: "\<forall>c \<in> set v. c \<noteq> CHR ''/'' \<Longrightarrow> segments v = [v]"
  by (induction v) auto

lemma path_char_no_slash: "list_all path_char v \<Longrightarrow> \<forall>c \<in> set v. c \<noteq> CHR ''/''"
  by (auto simp: list_all_iff path_char_def is_upper_def is_lower_def is_digit_byte byte_def)

abbreviation good_segment :: "string \<Rightarrow> bool" where
  "good_segment w \<equiv> w \<noteq> [] \<and> list_all path_char w"

lemma workFolder_lang_segments:
  assumes "good_segment v"
    and "x \<in> star_of {CHR ''/'' # w |w. good_segment w}"
  shows "list_all good_segment (segments (v @ x))"
  using assms(2,1)
proof (induction arbitrary: v rule: star_of.induct)
  case star_Nil
  then show ?case using segments_no_slash [OF path_char_no_slash] by auto
next
  case (star_app y w)
  then obtain y' where y: "y = CHR ''/'' # y'" "good_segment y'" by blast
  have "segments (v @ y @ w) = v # segments (y' @ w)"
    using segments_app_slash [OF path_char_no_slash] star_app.prems y by simp
  with star_app.IH [of y'] star_app.prems y show ?case by simp
qed

lemma segments_workFolder_lang:
  "list_all good_segment (segments s) \<Longrightarrow>
     \<exists>v x. s = v @ x \<and> good_segment v \<and> x \<in> star_of {CHR ''/'' # w |w. good_segment w}"
proof (induction "length s" arbitrary: s rule: less_induct)
  case less
  define v where "v = takeWhile (\<lambda>c. c \<noteq> CHR ''/'') s"
  define r where "r = dropWhile (\<lambda>c. c \<noteq> CHR ''/'') s"
  have s: "s = v @ r" by (simp add: v_def r_def)
  have nos: "\<forall>c \<in> set v. c \<noteq> CHR ''/''" by (auto simp: v_def dest: set_takeWhileD)
  show ?case
  proof (cases r)
    case Nil
    with s nos less.prems have "good_segment v" by (simp add: segments_no_slash)
    with s Nil show ?thesis using star_Nil by blast
  next
    case (Cons c t)
    have "c = CHR ''/''" using Cons hd_dropWhile [of "\<lambda>c. c \<noteq> CHR ''/''" s] by (simp add: r_def)
    with s Cons nos have seg: "segments s = v # segments t" by (simp add: segments_app_slash)
    have "length t < length s" using s Cons by simp
    moreover have "list_all good_segment (segments t)" using seg less.prems by simp
    ultimately obtain v' x where t: "t = v' @ x" "good_segment v'"
      "x \<in> star_of {CHR ''/'' # w |w. good_segment w}"
      using less.hyps by blast
    have "(CHR ''/'' # v') @ x \<in> star_of {CHR ''/'' # w |w. good_segment w}"
      by (rule star_of.star_app) (use t in auto)
    with t s Cons \<open>c = CHR ''/''\<close> seg less.prems show ?thesis by auto
  qed
qed

lemma workFolder_matches:
  "matches workFolderPattern s \<longleftrightarrow> list_all good_segment (segments s)"
proof -
  have seq: "lang (RSeq (RCls (\<lambda>c. c = CHR ''/'')) (RPlus (RCls path_char)))
      = {CHR ''/'' # w |w. good_segment w}"
    by (auto simp: lang_plus_cls simp del: lang.simps(6))
  have "matches workFolderPattern s \<longleftrightarrow>
     (\<exists>v x. s = v @ x \<and> good_segment v \<and> x \<in> star_of {CHR ''/'' # w |w. good_segment w})"
    unfolding matches_lang workFolderPattern_def lang.simps(5) [of "RPlus (RCls path_char)"]
      lang.simps(6) seq lang_plus_cls
    by auto
  then show ?thesis
    using workFolder_lang_segments segments_workFolder_lang by blast
qed

end
