(* ===== verification/Configuration.thy ===== *)
theory Configuration imports GoRegexp begin

text \<open>
  internal/config: the schema of config.yaml (config.go), the defaults, Validate, Parse and
  Load, and the expansion of runner classes into scale-set specifications with their names
  and labels (labels.go). YAML decoding, net/url and the file system are parameters.
\<close>

section \<open>The schema\<close>

record AppCredentials =
  ClientID :: string
  PrivateKeyFile :: string
  InstallationID :: int

record AuthConfig =
  Mode :: string
  PATFile :: string
  App :: AppCredentials

record GitHubConfig =
  ConfigURL :: string
  Auth :: AuthConfig

record RunnerClassConfig =
  VCPUs :: int
  MemoryGiB :: int
  DiskGiB :: int
  Arch :: string
  MaxRunners :: int

record ScaleSetsConfig =
  Prefix :: string
  RunnerGroup :: string
  BaseLabels :: "string list"
  Classes :: "RunnerClassConfig list"

record RunnerSpec =
  spec_VCPUs :: int
  spec_MemoryMB :: int
  spec_DiskGB :: int
  spec_Arch :: string

record ScaleSetConfig =
  ss_Name :: string
  ss_RunnerGroup :: string
  ss_BaseLabels :: "string list"
  ss_MaxRunners :: int
  ss_Runner :: RunnerSpec

record IncusConfig =
  URL :: string
  SocketPath :: string
  CertFile :: string
  KeyFile :: string
  ServerCertFile :: string
  InsecureSkipVerify :: bool
  Project :: string
  DefaultProfile :: string
  StoragePool :: string
  RequestTimeout :: duration

record RunnerConfig =
  ImageServer :: string
  ImageProtocol :: string
  ImageAlias :: string
  WorkFolder :: string
  RegistrationTimeout :: duration
  MaxJobDuration :: duration
  ReleaseCacheTTL :: "duration option"
  MaxParallelMints :: int
  MaxParallelLaunches :: int
  InstanceType :: string
  Privileged :: bool
  UseBakedImage :: bool

record ObservabilityConfig =
  ListenAddr :: string

record Config =
  GitHub :: GitHubConfig
  ScaleSets :: ScaleSetsConfig
  Incus :: IncusConfig
  RunnerCfg :: RunnerConfig
  Observability :: ObservabilityConfig

text \<open>Instance types, auth modes, architectures.\<close>

definition InstanceTypeVM :: string where "InstanceTypeVM = ''vm''"

definition InstanceTypeContainer :: string where "InstanceTypeContainer = ''container''"

definition AuthModePAT :: string where "AuthModePAT = ''pat''"

definition AuthModeApp :: string where "AuthModeApp = ''app''"

definition ArchAMD64 :: string where "ArchAMD64 = ''amd64''"

definition ArchARM64 :: string where "ArchARM64 = ''arm64''"

section \<open>labels.go: names, shapes and labels of a class\<close>

definition ScaleSetName :: "(nat \<Rightarrow> nat) \<Rightarrow> RunnerClassConfig \<Rightarrow> string \<Rightarrow> string" where
  "ScaleSetName u c prefix =
     prefix @ ''-'' @ itoa (VCPUs c) @ ''vcpu-'' @ itoa (MemoryGiB c) @ ''gb-''
       @ itoa (DiskGiB c) @ ''gb-'' @ to_lower u (Arch c)"

definition RunnerSpec_of :: "(nat \<Rightarrow> nat) \<Rightarrow> RunnerClassConfig \<Rightarrow> RunnerSpec" where
  "RunnerSpec_of u c =
     \<lparr>spec_VCPUs = VCPUs c, spec_MemoryMB = wrap64 (MemoryGiB c * 1024),
      spec_DiskGB = DiskGiB c, spec_Arch = to_lower u (Arch c)\<rparr>"

text \<open>
  The closure \<open>add\<close> of ScaleSetLabels on its two captured variables, the set of seen keys
  and the output.
\<close>

definition add_label ::
  "(nat \<Rightarrow> nat) \<Rightarrow> string \<Rightarrow> string set \<times> string list \<Rightarrow> string set \<times> string list" where
  "add_label u l st =
     (let key = to_lower u l; (seen, out) = st in
      if l = [] then (seen, out)
      else if key \<in> seen then (seen, out)
      else (insert key seen, out @ [l]))"

definition ScaleSetLabels :: "(nat \<Rightarrow> nat) \<Rightarrow> string list \<Rightarrow> string \<Rightarrow> string list" where
  "ScaleSetLabels u base className =
     snd (add_label u className (fold (add_label u) base ({}, [])))"

definition ScaleSetSpecs :: "(nat \<Rightarrow> nat) \<Rightarrow> Config \<Rightarrow> ScaleSetConfig list" where
  "ScaleSetSpecs u c =
     map (\<lambda>class.
       let name = ScaleSetName u class (Prefix (ScaleSets c)) in
       \<lparr>ss_Name = name,
        ss_RunnerGroup = RunnerGroup (ScaleSets c),
        ss_BaseLabels = ScaleSetLabels u (BaseLabels (ScaleSets c)) name,
        ss_MaxRunners = MaxRunners class,
        ss_Runner = RunnerSpec_of u class\<rparr>)
     (Classes (ScaleSets c))"

section \<open>config.go: defaults\<close>

definition default_str :: "string \<Rightarrow> string \<Rightarrow> string" where
  "default_str d s = (if s = [] then d else s)"

definition default_int :: "int \<Rightarrow> int \<Rightarrow> int" where
  "default_int d i = (if i = 0 then d else i)"

definition defaults_scale_sets :: "ScaleSetsConfig \<Rightarrow> ScaleSetsConfig" where
  "defaults_scale_sets s =
     s\<lparr>Prefix := default_str ''incuse'' (Prefix s),
       RunnerGroup := default_str ''Default'' (RunnerGroup s)\<rparr>"

definition defaults_incus :: "IncusConfig \<Rightarrow> IncusConfig" where
  "defaults_incus i =
     i\<lparr>SocketPath := (if SocketPath i = [] \<and> URL i = [] then ''/var/lib/incus/unix.socket''
                      else SocketPath i),
       Project := default_str ''incuse'' (Project i),
       DefaultProfile := default_str ''incuse-runner'' (DefaultProfile i),
       RequestTimeout := default_int (10 * minute) (RequestTimeout i)\<rparr>"

definition defaults_image :: "RunnerConfig \<Rightarrow> RunnerConfig" where
  "defaults_image r =
     (if UseBakedImage r
      then r\<lparr>ImageAlias := default_str ''incuse-runner'' (ImageAlias r)\<rparr>
      else r\<lparr>ImageServer := default_str ''https://images.linuxcontainers.org'' (ImageServer r),
             ImageProtocol := default_str ''simplestreams'' (ImageProtocol r),
             ImageAlias := default_str ''ubuntu/24.04/cloud'' (ImageAlias r)\<rparr>)"

definition defaults_runner :: "RunnerConfig \<Rightarrow> RunnerConfig" where
  "defaults_runner r0 =
     (let r = defaults_image r0 in
      r\<lparr>WorkFolder := default_str ''_work'' (WorkFolder r),
        RegistrationTimeout := default_int (10 * minute) (RegistrationTimeout r),
        MaxJobDuration := default_int (6 * hour) (MaxJobDuration r),
        ReleaseCacheTTL := (case ReleaseCacheTTL r of None \<Rightarrow> Some hour | Some t \<Rightarrow> Some t),
        MaxParallelMints := default_int 4 (MaxParallelMints r),
        MaxParallelLaunches := default_int 2 (MaxParallelLaunches r),
        InstanceType := default_str InstanceTypeVM (InstanceType r)\<rparr>)"

definition applyDefaults :: "Config \<Rightarrow> Config" where
  "applyDefaults c =
     c\<lparr>ScaleSets := defaults_scale_sets (ScaleSets c),
       Incus := defaults_incus (Incus c),
       RunnerCfg := defaults_runner (RunnerCfg c)\<rparr>"

section \<open>config.go: Validate\<close>

text \<open>One constructor per message, with the values the message prints.\<close>

datatype config_error =
    ConfigURLRequired
  | ConfigURLInvalid string
  | PATFileRequired
  | AppClientIDRequired
  | AppPrivateKeyFileRequired
  | AppInstallationIDRequired
  | AuthModeRequired
  | AuthModeUnknown string
  | PrefixInvalid
  | ClassesRequired
  | ClassVCPUs nat
  | ClassMemoryGiB nat
  | ClassDiskGiB nat
  | ClassMaxRunners nat
  | ClassArch nat
  | ClassNameTooLong nat string
  | ClassDuplicate nat string
  | BakedArchMixed
  | IncusCertFileRequired
  | IncusKeyFileRequired
  | StoragePoolRequired
  | RequestTimeoutInvalid
  | WorkFolderInvalid
  | RegistrationTimeoutInvalid
  | MaxJobDurationInvalid
  | ReleaseCacheTTLInvalid
  | MaxParallelMintsInvalid
  | MaxParallelLaunchesInvalid
  | InstanceTypeUnknown string
  | PrivilegedNotContainer

definition check :: "bool \<Rightarrow> config_error \<Rightarrow> config_error list" where
  "check cond msg = (if cond then [] else [msg])"

definition maxScaleSetNameLen :: nat where "maxScaleSetNameLen = 54"

definition validNamePrefix :: "string \<Rightarrow> bool" where
  "validNamePrefix s = matches namePrefixPattern s"

definition validWorkFolder :: "string \<Rightarrow> bool" where
  "validWorkFolder s =
     (s \<noteq> [] \<and> \<not> has_prefix ''/'' s \<and> \<not> contains s ''..'' \<and> matches workFolderPattern s)"

text \<open>
  \<open>url_parse\<close> is net/url's Parse: \<open>None\<close> an error, otherwise the scheme and the host.
\<close>

definition validate_github ::
  "(string \<Rightarrow> (string \<times> string) option) \<Rightarrow> GitHubConfig \<Rightarrow> config_error list" where
  "validate_github url_parse g =
     check (ConfigURL g \<noteq> []) ConfigURLRequired
     @ (if ConfigURL g \<noteq> [] then
          (case url_parse (ConfigURL g) of
             None \<Rightarrow> [ConfigURLInvalid (ConfigURL g)]
           | Some (scheme, host) \<Rightarrow>
               if scheme = [] \<or> host = [] then [ConfigURLInvalid (ConfigURL g)] else [])
        else [])
     @ (let a = Auth g in
        if Mode a = AuthModePAT then check (PATFile a \<noteq> []) PATFileRequired
        else if Mode a = AuthModeApp then
          check (ClientID (App a) \<noteq> []) AppClientIDRequired
          @ check (PrivateKeyFile (App a) \<noteq> []) AppPrivateKeyFileRequired
          @ check (InstallationID (App a) \<noteq> 0) AppInstallationIDRequired
        else if Mode a = [] then [AuthModeRequired]
        else [AuthModeUnknown (Mode a)])"

text \<open>
  The loop over the classes, with the index, the set of names seen and the architecture of
  the baked image (the empty string until a class has set it).
\<close>

fun validate_classes ::
  "(nat \<Rightarrow> nat) \<Rightarrow> string \<Rightarrow> bool \<Rightarrow> nat \<Rightarrow> string set \<Rightarrow> string \<Rightarrow> RunnerClassConfig list
     \<Rightarrow> config_error list" where
  "validate_classes u prefix baked i seen bakedArch [] = []"
| "validate_classes u prefix baked i seen bakedArch (class # rest) =
     (let name = ScaleSetName u class prefix;
          bakedArch' = (if baked \<and> bakedArch = [] then Arch class else bakedArch) in
      check (VCPUs class > 0) (ClassVCPUs i)
      @ check (MemoryGiB class > 0) (ClassMemoryGiB i)
      @ check (DiskGiB class > 0) (ClassDiskGiB i)
      @ check (MaxRunners class > 0) (ClassMaxRunners i)
      @ check (Arch class = ArchAMD64 \<or> Arch class = ArchARM64) (ClassArch i)
      @ check (length name \<le> maxScaleSetNameLen) (ClassNameTooLong i name)
      @ (if name \<in> seen then [ClassDuplicate i name] else [])
      @ (if baked then check (Arch class = bakedArch') BakedArchMixed else [])
      @ validate_classes u prefix baked (Suc i) (insert name seen) bakedArch' rest)"

definition validate_scale_sets ::
  "(nat \<Rightarrow> nat) \<Rightarrow> bool \<Rightarrow> ScaleSetsConfig \<Rightarrow> config_error list" where
  "validate_scale_sets u baked s =
     check (validNamePrefix (Prefix s)) PrefixInvalid
     @ check (length (Classes s) > 0) ClassesRequired
     @ validate_classes u (Prefix s) baked 0 {} [] (Classes s)"

definition validate_incus :: "IncusConfig \<Rightarrow> config_error list" where
  "validate_incus i =
     (if URL i \<noteq> [] then
        check (CertFile i \<noteq> []) IncusCertFileRequired
        @ check (KeyFile i \<noteq> []) IncusKeyFileRequired
      else [])
     @ check (StoragePool i \<noteq> []) StoragePoolRequired
     @ check (RequestTimeout i > 0) RequestTimeoutInvalid"

definition validate_runner :: "RunnerConfig \<Rightarrow> config_error list" where
  "validate_runner r =
     check (validWorkFolder (WorkFolder r)) WorkFolderInvalid
     @ check (RegistrationTimeout r > 0) RegistrationTimeoutInvalid
     @ check (MaxJobDuration r > 0) MaxJobDurationInvalid
     @ check (case ReleaseCacheTTL r of None \<Rightarrow> False | Some t \<Rightarrow> t \<ge> 0) ReleaseCacheTTLInvalid
     @ check (MaxParallelMints r > 0) MaxParallelMintsInvalid
     @ check (MaxParallelLaunches r > 0) MaxParallelLaunchesInvalid
     @ (if InstanceType r = InstanceTypeVM \<or> InstanceType r = InstanceTypeContainer then []
        else [InstanceTypeUnknown (InstanceType r)])
     @ (if Privileged r \<and> InstanceType r \<noteq> InstanceTypeContainer
        then [PrivilegedNotContainer] else [])"

definition Validate ::
  "(nat \<Rightarrow> nat) \<Rightarrow> (string \<Rightarrow> (string \<times> string) option) \<Rightarrow> Config \<Rightarrow> config_error list option" where
  "Validate u url_parse c =
     (let errs = validate_github url_parse (GitHub c)
          @ validate_scale_sets u (UseBakedImage (RunnerCfg c)) (ScaleSets c)
          @ validate_incus (Incus c)
          @ validate_runner (RunnerCfg c)
      in if length errs > 0 then Some errs else None)"

section \<open>config.go: Parse and Load\<close>

datatype 'e load_error = ReadError 'e | DecodeError 'e | InvalidConfig "config_error list"

text \<open>\<open>decode\<close> is yaml.UnmarshalStrict into a zero Config.\<close>

definition Parse ::
  "(nat \<Rightarrow> nat) \<Rightarrow> (string \<Rightarrow> (string \<times> string) option) \<Rightarrow> (string \<Rightarrow> ('e, Config) result)
     \<Rightarrow> string \<Rightarrow> ('e load_error, Config) result" where
  "Parse u url_parse decode raw =
     (case decode raw of
        Inl e \<Rightarrow> Inl (DecodeError e)
      | Inr c \<Rightarrow>
          let cfg = applyDefaults c in
          case Validate u url_parse cfg of
            Some errs \<Rightarrow> Inl (InvalidConfig errs)
          | None \<Rightarrow> Inr cfg)"

definition Load ::
  "(nat \<Rightarrow> nat) \<Rightarrow> (string \<Rightarrow> (string \<times> string) option) \<Rightarrow> (string \<Rightarrow> ('e, Config) result)
     \<Rightarrow> (string \<Rightarrow> ('e, string) result) \<Rightarrow> string \<Rightarrow> ('e load_error, Config) result" where
  "Load u url_parse decode readFile path =
     (case readFile path of
        Inl e \<Rightarrow> Inl (ReadError e)
      | Inr raw \<Rightarrow> Parse u url_parse decode raw)"

end
