(* ===== verification/Tracker.thy ===== *)
theory Tracker imports Configuration "HOL-Library.AList" begin

text \<open>
  internal/orchestrator/tracker.go: the registry of runners. The Go map of pointers is an
  association list with distinct keys; an operation that writes through a pointer is a
  \<open>map_entry\<close>. Every operation takes the lock for its whole body, so each is one atomic
  function. The interface the orchestrator relies on is the locale \<open>runner_registry\<close>.
\<close>

section \<open>Records\<close>

datatype runnerState = StatusLaunching | StatusIdle | StatusBusy

record trackedRunner =
  tr_Name :: string
  RunnerID :: int
  MintedAt :: time
  ReadyAt :: time
  BusyAt :: time
  Spec :: RunnerSpec
  tr_ScaleSetID :: int
  State :: runnerState
  TerminationPending :: bool

text \<open>The constants of the enumeration are ordered as their iota values.\<close>

definition iota :: "runnerState \<Rightarrow> nat" where
  "iota s = (case s of StatusLaunching \<Rightarrow> 0 | StatusIdle \<Rightarrow> 1 | StatusBusy \<Rightarrow> 2)"

lemma iota_inj: "iota a = iota b \<longleftrightarrow> a = b"
  by (cases a; cases b) (simp_all add: iota_def)

instantiation runnerState :: linorder
begin

definition less_eq_runnerState :: "runnerState \<Rightarrow> runnerState \<Rightarrow> bool" where
  "less_eq_runnerState a b = (iota a \<le> iota b)"

definition less_runnerState :: "runnerState \<Rightarrow> runnerState \<Rightarrow> bool" where
  "less_runnerState a b = (iota a < iota b)"

instance
  by standard (auto simp: less_eq_runnerState_def less_runnerState_def iota_inj)

end

type_synonym tracker = "(string \<times> trackedRunner) list"

section \<open>Operations\<close>

definition newInstanceTracker :: tracker where
  "newInstanceTracker = []"

definition tracker_add :: "trackedRunner \<Rightarrow> tracker \<Rightarrow> tracker" where
  "tracker_add r t = AList.update (tr_Name r) r t"

definition tracker_remove :: "string \<Rightarrow> tracker \<Rightarrow> tracker" where
  "tracker_remove n t = AList.delete n t"

definition tracker_get :: "string \<Rightarrow> tracker \<Rightarrow> trackedRunner option" where
  "tracker_get n t = map_of t n"

definition idle_entry :: "time \<Rightarrow> trackedRunner \<Rightarrow> trackedRunner" where
  "idle_entry now v = (if State v = StatusLaunching then v\<lparr>State := StatusIdle, ReadyAt := now\<rparr> else v)"

definition markIdle :: "string \<Rightarrow> time \<Rightarrow> tracker \<Rightarrow> (bool \<times> bool) \<times> tracker" where
  "markIdle n now t =
     (case map_of t n of
        None \<Rightarrow> ((False, False), t)
      | Some v \<Rightarrow> ((TerminationPending v, True), AList.map_entry n (idle_entry now) t))"

definition busy_entry :: "time \<Rightarrow> trackedRunner \<Rightarrow> trackedRunner" where
  "busy_entry now v = v\<lparr>BusyAt := now, State := StatusBusy\<rparr>"

definition markBusy :: "string \<Rightarrow> time \<Rightarrow> tracker \<Rightarrow> (runnerState \<times> bool) \<times> tracker" where
  "markBusy n now t =
     (case map_of t n of
        None \<Rightarrow> ((StatusLaunching, False), t)
      | Some v \<Rightarrow> ((State v, True), AList.map_entry n (busy_entry now) t))"

definition pending_entry :: "trackedRunner \<Rightarrow> trackedRunner" where
  "pending_entry v = v\<lparr>TerminationPending := True\<rparr>"

definition markForTermination :: "string \<Rightarrow> tracker \<Rightarrow> (runnerState \<times> bool) \<times> tracker" where
  "markForTermination n t =
     (case map_of t n of
        None \<Rightarrow> ((StatusLaunching, False), t)
      | Some v \<Rightarrow> ((State v, True), AList.map_entry n pending_entry t))"

definition terminationPending :: "string \<Rightarrow> tracker \<Rightarrow> bool" where
  "terminationPending n t = (case map_of t n of None \<Rightarrow> False | Some v \<Rightarrow> TerminationPending v)"

text \<open>
  snapshot ranges over the map in an order Go leaves open; the list in the order of the
  association list is one of them, and the step relation allows every other.
\<close>

definition snapshot :: "tracker \<Rightarrow> trackedRunner list" where
  "snapshot t = map snd t"

definition names :: "tracker \<Rightarrow> string set" where
  "names t = set (map fst t)"

definition tracker_size :: "tracker \<Rightarrow> nat" where
  "tracker_size t = length t"

text \<open>The invariant: one entry per name, filed under its own name.\<close>

definition tracker_inv :: "tracker \<Rightarrow> bool" where
  "tracker_inv t \<longleftrightarrow> distinct (map fst t) \<and> (\<forall>(n, r) \<in> set t. tr_Name r = n)"

section \<open>The interface\<close>

text \<open>
  A registry of runners: \<open>lookup\<close> is its abstract state, a finite map; \<open>modify\<close> is any of
  the in-place updates.
\<close>

locale runner_registry =
  fixes empty_reg :: "'t"
    and add :: "trackedRunner \<Rightarrow> 't \<Rightarrow> 't"
    and remove :: "string \<Rightarrow> 't \<Rightarrow> 't"
    and modify :: "string \<Rightarrow> (trackedRunner \<Rightarrow> trackedRunner) \<Rightarrow> 't \<Rightarrow> 't"
    and lookup :: "'t \<Rightarrow> string \<Rightarrow> trackedRunner option"
    and count :: "'t \<Rightarrow> nat"
    and inv :: "'t \<Rightarrow> bool"
  assumes lookup_empty: "lookup empty_reg = (\<lambda>_. None)"
    and lookup_add: "inv t \<Longrightarrow> lookup (add r t) = (lookup t)(tr_Name r \<mapsto> r)"
    and lookup_remove: "inv t \<Longrightarrow> lookup (remove n t) = (lookup t)(n := None)"
    and lookup_modify: "inv t \<Longrightarrow> lookup (modify n f t) = (lookup t)(n := map_option f (lookup t n))"
    and count_dom: "inv t \<Longrightarrow> finite (dom (lookup t)) \<and> count t = card (dom (lookup t))"
    and inv_empty: "inv empty_reg"
    and inv_add: "inv t \<Longrightarrow> inv (add r t)"
    and inv_remove: "inv t \<Longrightarrow> inv (remove n t)"
    and inv_modify: "inv t \<Longrightarrow> (\<And>r. tr_Name (f r) = tr_Name r) \<Longrightarrow> inv (modify n f t)"
begin

lemma count_empty: "count empty_reg = 0"
  using count_dom [OF inv_empty] by (simp add: lookup_empty)

lemma count_add:
  assumes "inv t"
  shows "count (add r t) = (if tr_Name r \<in> dom (lookup t) then count t else Suc (count t))"
proof -
  have "count (add r t) = card (insert (tr_Name r) (dom (lookup t)))"
    using count_dom [OF inv_add [OF assms]] lookup_add [OF assms] by (simp add: dom_fun_upd)
  then show ?thesis using count_dom [OF assms] by (simp add: card_insert_if)
qed

lemma count_remove:
  assumes "inv t"
  shows "count (remove n t) = (if n \<in> dom (lookup t) then count t - 1 else count t)"
proof -
  have "count (remove n t) = card (dom (lookup t) - {n})"
    using count_dom [OF inv_remove [OF assms]] lookup_remove [OF assms] by simp
  then show ?thesis using count_dom [OF assms] by (simp add: card_Diff_singleton_if)
qed

lemma count_modify:
  assumes "inv t" "\<And>r. tr_Name (f r) = tr_Name r"
  shows "count (modify n f t) = count t" "dom (lookup (modify n f t)) = dom (lookup t)"
proof -
  show d: "dom (lookup (modify n f t)) = dom (lookup t)"
    using lookup_modify [OF assms(1)] by (auto simp: dom_def split: if_splits)
  show "count (modify n f t) = count t"
    using count_dom [OF assms(1)] count_dom [OF inv_modify [OF assms]] d by simp
qed

text \<open>What bounds the pool: adding grows a registry by at most one, nothing else grows it.\<close>

lemma count_bounds:
  assumes "inv t"
  shows "count (add r t) \<le> Suc (count t)" "count (remove n t) \<le> count t"
  using assms by (simp_all add: count_add count_remove)

end

section \<open>The tracker provides the interface\<close>

lemma map_entry_keys: "map fst (AList.map_entry n f t) = map fst t"
  by (induction t) (auto split: prod.splits)

lemma tracker_inv_map_of:
  "tracker_inv t \<longleftrightarrow> distinct (map fst t) \<and> (\<forall>n r. map_of t n = Some r \<longrightarrow> tr_Name r = n)"
  by (auto simp: tracker_inv_def dest: map_of_SomeD)

lemma tracker_inv_add: "tracker_inv t \<Longrightarrow> tracker_inv (AList.update (tr_Name r) r t)"
  by (auto simp: tracker_inv_map_of update_conv' distinct_update split: if_splits)

lemma tracker_inv_remove: "tracker_inv t \<Longrightarrow> tracker_inv (AList.delete n t)"
  by (auto simp: tracker_inv_map_of delete_conv' distinct_delete split: if_splits)

lemma tracker_inv_entry:
  "tracker_inv t \<Longrightarrow> (\<And>r. tr_Name (f r) = tr_Name r) \<Longrightarrow> tracker_inv (AList.map_entry n f t)"
  by (auto simp: tracker_inv_map_of map_entry_keys map_of_map_entry split: if_splits option.splits)

lemma tracker_size_dom:
  "tracker_inv t \<Longrightarrow> finite (dom (map_of t)) \<and> tracker_size t = card (dom (map_of t))"
  using distinct_card [of "map fst t"]
  by (simp add: tracker_inv_def tracker_size_def finite_dom_map_of dom_map_of_conv_image_fst)

interpretation tracker: runner_registry newInstanceTracker tracker_add tracker_remove
  AList.map_entry map_of tracker_size tracker_inv
  by unfold_locales
    (simp_all add: newInstanceTracker_def tracker_add_def tracker_remove_def update_conv'
      delete_conv' map_of_map_entry tracker_size_dom tracker_inv_def [of "[]"]
      tracker_inv_add tracker_inv_remove tracker_inv_entry fun_eq_iff split: option.splits)

end
