(* ===== verification/Limiter.thy ===== *)
theory Limiter imports Prelude begin

text \<open>
  The Limiter of internal/orchestrator/orchestrator.go: a buffered channel used as a counting
  semaphore. \<open>chan\<close> is the identity of the channel: two classes share a limiter when the
  limiters they hold have the same one. A send on the channel is \<open>limiter_acquire\<close>, a receive \<open>limiter_release\<close>;
  \<open>None\<close> says the operation blocks in that state.
\<close>

record Limiter =
  chan :: nat
  capacity :: nat
  inUse :: nat

text \<open>
  make(chan struct{}, n) panics on a negative capacity; \<open>addr\<close> is the identity the new
  channel gets.
\<close>

definition NewLimiter :: "nat \<Rightarrow> int \<Rightarrow> Limiter option" where
  "NewLimiter addr c = (if c < 0 then None else Some \<lparr>chan = addr, capacity = nat c, inUse = 0\<rparr>)"

definition limiter_acquire :: "Limiter \<Rightarrow> Limiter option" where
  "limiter_acquire l = (if inUse l < capacity l then Some (l\<lparr>inUse := Suc (inUse l)\<rparr>) else None)"

definition limiter_release :: "Limiter \<Rightarrow> Limiter option" where
  "limiter_release l = (if 0 < inUse l then Some (l\<lparr>inUse := inUse l - 1\<rparr>) else None)"

section \<open>The interface of a counting semaphore\<close>

text \<open>A run of acquisitions (True) and releases (False), \<open>None\<close> if one of them blocks.\<close>

fun sem_run :: "('l \<Rightarrow> 'l option) \<Rightarrow> ('l \<Rightarrow> 'l option) \<Rightarrow> bool list \<Rightarrow> 'l \<Rightarrow> 'l option" where
  "sem_run acq rel [] l = Some l"
| "sem_run acq rel (b # bs) l =
     (case (if b then acq l else rel l) of None \<Rightarrow> None | Some l' \<Rightarrow> sem_run acq rel bs l')"

locale semaphore =
  fixes acq rel :: "'l \<Rightarrow> 'l option"
    and held cap :: "'l \<Rightarrow> nat"
  assumes acq_Some: "acq l = Some l' \<Longrightarrow> held l' = Suc (held l) \<and> cap l' = cap l \<and> held l < cap l"
    and acq_enabled: "held l < cap l \<Longrightarrow> acq l \<noteq> None"
    and rel_Some: "rel l = Some l' \<Longrightarrow> Suc (held l') = held l \<and> cap l' = cap l"
    and rel_enabled: "0 < held l \<Longrightarrow> rel l \<noteq> None"
begin

lemma acq_bound: "acq l = Some l' \<Longrightarrow> held l' \<le> cap l'"
  using acq_Some by fastforce

lemma rel_bound: "held l \<le> cap l \<Longrightarrow> rel l = Some l' \<Longrightarrow> held l' \<le> cap l'"
  using rel_Some by fastforce

lemma acq_blocks_iff: "acq l = None \<longleftrightarrow> cap l \<le> held l"
  using acq_enabled acq_Some by (metis leD leI not_None_eq)

text \<open>Every run keeps the bound, and what is held is what was acquired and not released.\<close>

lemma sem_run_bound:
  "held l \<le> cap l \<Longrightarrow> sem_run acq rel bs l = Some l' \<Longrightarrow>
     held l' \<le> cap l' \<and> cap l' = cap l
     \<and> held l' + length (filter Not bs) = held l + length (filter (\<lambda>b. b) bs)"
proof (induction bs arbitrary: l)
  case (Cons b bs)
  then obtain m where m: "(if b then acq l else rel l) = Some m" "sem_run acq rel bs m = Some l'"
    by (auto split: option.splits)
  then have "held m \<le> cap m \<and> cap m = cap l"
    using Cons.prems(1) acq_bound rel_bound acq_Some rel_Some by (metis (full_types))
  with Cons.IH [of m] m(2)
  have "held l' \<le> cap l' \<and> cap l' = cap l
      \<and> held l' + length (filter Not bs) = held m + length (filter (\<lambda>b. b) bs)"
    by simp
  moreover have "if b then held m = Suc (held l) else Suc (held m) = held l"
    using m(1) acq_Some rel_Some by (cases b) auto
  ultimately show ?case by (cases b) auto
qed simp

end

interpretation limiter: semaphore limiter_acquire limiter_release inUse capacity
  by unfold_locales (auto simp: limiter_acquire_def limiter_release_def split: if_splits)

end
