(* ===== verification/Incus_Types.thy ===== *)
theory Incus_Types imports Prelude begin

text \<open>
  internal/incus/types.go: what the orchestrator and the Incus client exchange. A Go map from
  strings to strings is a partial map; \<open>cfg_get\<close> reads it as Go's index expression does, the
  empty string when the key is absent.
\<close>

type_synonym config_map = "string \<rightharpoonup> string"

definition InstanceTypeVM_incus :: string where
  "InstanceTypeVM_incus = ''virtual-machine''"

definition InstanceTypeContainer_incus :: string where
  "InstanceTypeContainer_incus = ''container''"

record ImageSource =
  Server :: string
  Protocol :: string
  Alias :: string

record LaunchRequest =
  lr_Name :: string
  lr_Architecture :: string
  lr_Type :: string
  lr_Profiles :: "string list"
  lr_Image :: ImageSource
  lr_Config :: config_map
  lr_Devices :: "string \<rightharpoonup> config_map"
  lr_Ephemeral :: bool
  lr_Description :: string

record Instance =
  inst_Name :: string
  inst_Description :: string
  inst_Type :: string
  inst_Status :: string
  inst_Project :: string
  inst_Config :: config_map

definition cfg_get :: "config_map \<Rightarrow> string \<Rightarrow> string" where
  "cfg_get m k = (case m k of None \<Rightarrow> [] | Some v \<Rightarrow> v)"

end
