(* ===== verification/GoTime.thy ===== *)
theory GoTime imports GoStrings begin

text \<open>
  Time.UTC().Format(time.RFC3339): the proleptic Gregorian date and the time of day of an
  instant, printed as \<^verbatim>\<open>2006-01-02T15:04:05Z\<close>.
\<close>

text \<open>Year, month and day from the days since 1 January of year 1.\<close>

definition civil :: "int \<Rightarrow> int \<times> int \<times> int" where
  "civil days =
     (let z = days + 306; era = z div 146097; doe = z mod 146097;
          yoe = (doe - doe div 1460 + doe div 36524 - doe div 146096) div 365;
          doy = doe - (365 * yoe + yoe div 4 - yoe div 100);
          mp = (5 * doy + 2) div 153;
          d = doy - (153 * mp + 2) div 5 + 1;
          m = (if mp < 10 then mp + 3 else mp - 9);
          y = yoe + era * 400 + (if m \<le> 2 then 1 else 0)
      in (y, m, d))"

definition pad :: "nat \<Rightarrow> int \<Rightarrow> string" where
  "pad w i =
     (let s = nat_str (nat \<bar>i\<bar>) in
      (if i < 0 then ''-'' else '''') @ replicate (w - length s) CHR ''0'' @ s)"

definition rfc3339 :: "time \<Rightarrow> string" where
  "rfc3339 t =
     (let secs = t div second; (y, m, d) = civil (secs div 86400); s = secs mod 86400 in
      pad 4 y @ ''-'' @ pad 2 m @ ''-'' @ pad 2 d @ ''T''
        @ pad 2 (s div 3600) @ '':'' @ pad 2 (s div 60 mod 60) @ '':'' @ pad 2 (s mod 60) @ ''Z'')"

lemma rfc3339_leap_day: "rfc3339 (63844806896 * second) = ''2024-02-29T12:34:56Z''"
  by code_simp

lemma rfc3339_zero: "rfc3339 0 = ''0001-01-01T00:00:00Z''"
  by code_simp

end
