(* ===== verification/Launch.thy ===== *)
theory Launch imports Configuration Incus_Types GoTime begin

text \<open>
  internal/orchestrator/launch.go: the launch request of a runner, with the metadata keys
  the drift sweep recognises its instances by.
\<close>

section \<open>Definitions\<close>

definition metaManaged :: string where "metaManaged = ''user.incuse.managed''"

definition metaRunnerName :: string where "metaRunnerName = ''user.incuse.runner_name''"

definition metaScaleSetID :: string where "metaScaleSetID = ''user.incuse.scale_set_id''"

definition metaMintedAt :: string where "metaMintedAt = ''user.incuse.minted_at''"

record launchInputs =
  in_runnerName :: string
  in_spec :: RunnerSpec
  in_incusCfg :: IncusConfig
  in_runnerCfg :: RunnerConfig
  in_cloudInit :: string
  in_scaleSetID :: int
  in_mintedAt :: time
  in_description :: string

definition launch_config :: "launchInputs \<Rightarrow> config_map" where
  "launch_config i =
     (let base = [''limits.cpu'' \<mapsto> itoa (spec_VCPUs (in_spec i)),
            ''limits.memory'' \<mapsto> itoa (spec_MemoryMB (in_spec i)) @ ''MiB'',
            ''cloud-init.user-data'' \<mapsto> in_cloudInit i,
            metaManaged \<mapsto> ''true'',
            metaRunnerName \<mapsto> in_runnerName i,
            metaScaleSetID \<mapsto> itoa (in_scaleSetID i),
            metaMintedAt \<mapsto> rfc3339 (in_mintedAt i)] in
      if InstanceType (in_runnerCfg i) = InstanceTypeContainer then
        let nested = base(''security.nesting'' \<mapsto> ''true'',
              ''security.syscalls.intercept.mknod'' \<mapsto> ''true'',
              ''security.syscalls.intercept.setxattr'' \<mapsto> ''true'') in
        if Privileged (in_runnerCfg i) then nested(''security.privileged'' \<mapsto> ''true'') else nested
      else base)"

definition buildLaunchRequest :: "launchInputs \<Rightarrow> LaunchRequest" where
  "buildLaunchRequest i =
     (let imageServer = ImageServer (in_runnerCfg i);
          imageProtocol = (if imageServer = [] then []
            else if ImageProtocol (in_runnerCfg i) = [] then ''simplestreams''
            else ImageProtocol (in_runnerCfg i)) in
      \<lparr>lr_Name = in_runnerName i,
       lr_Architecture = spec_Arch (in_spec i),
       lr_Type = (if InstanceType (in_runnerCfg i) = InstanceTypeContainer
                  then InstanceTypeContainer_incus else InstanceTypeVM_incus),
       lr_Profiles = [DefaultProfile (in_incusCfg i)],
       lr_Image = \<lparr>Server = imageServer, Protocol = imageProtocol,
                   Alias = ImageAlias (in_runnerCfg i)\<rparr>,
       lr_Config = launch_config i,
       lr_Devices = [''root'' \<mapsto> [''type'' \<mapsto> ''disk'', ''path'' \<mapsto> ''/'',
                        ''pool'' \<mapsto> StoragePool (in_incusCfg i),
                        ''size'' \<mapsto> itoa (spec_DiskGB (in_spec i)) @ ''GiB'']],
       lr_Ephemeral = True,
       lr_Description = in_description i\<rparr>)"

section \<open>What the request holds\<close>

lemmas meta_keys = metaManaged_def metaRunnerName_def metaScaleSetID_def metaMintedAt_def

lemma launch_config_meta:
  "launch_config i metaManaged = Some ''true''"
  "launch_config i metaScaleSetID = Some (itoa (in_scaleSetID i))"
  "launch_config i metaRunnerName = Some (in_runnerName i)"
  by (simp_all add: launch_config_def Let_def meta_keys)

text \<open>
  Isolation follows the configured instance type and nothing else: a privileged
  instance is requested exactly for a container class with privileged set, nesting and the
  syscall intercepts exactly for containers, and every request is ephemeral, carries the
  ownership tags and sizes the CPU, memory and root disk from the class.
\<close>

theorem buildLaunchRequest_isolation:
  "(lr_Config (buildLaunchRequest i) ''security.privileged'' = Some ''true'' \<longleftrightarrow>
      InstanceType (in_runnerCfg i) = ''container'' \<and> Privileged (in_runnerCfg i))
   \<and> (lr_Config (buildLaunchRequest i) ''security.nesting'' = Some ''true'' \<longleftrightarrow>
      lr_Type (buildLaunchRequest i) = ''container'')
   \<and> (lr_Type (buildLaunchRequest i) = ''container'' \<longleftrightarrow> InstanceType (in_runnerCfg i) = ''container'')
   \<and> lr_Ephemeral (buildLaunchRequest i)
   \<and> lr_Config (buildLaunchRequest i) ''user.incuse.managed'' = Some ''true''
   \<and> lr_Config (buildLaunchRequest i) ''user.incuse.scale_set_id'' = Some (itoa (in_scaleSetID i))
   \<and> lr_Config (buildLaunchRequest i) ''limits.cpu'' = Some (itoa (spec_VCPUs (in_spec i)))
   \<and> lr_Config (buildLaunchRequest i) ''limits.memory'' = Some (itoa (spec_MemoryMB (in_spec i)) @ ''MiB'')
   \<and> (\<exists>d. lr_Devices (buildLaunchRequest i) ''root'' = Some d
        \<and> d ''size'' = Some (itoa (spec_DiskGB (in_spec i)) @ ''GiB''))"
  by (simp add: buildLaunchRequest_def launch_config_def Let_def meta_keys
      InstanceTypeContainer_def InstanceTypeContainer_incus_def InstanceTypeVM_incus_def)

text \<open>
  The image source is consistent: without a server the protocol is empty (a local
  alias), with a server it never is.
\<close>

theorem buildLaunchRequest_image:
  "(Server (lr_Image (buildLaunchRequest i)) = [] \<longleftrightarrow> Protocol (lr_Image (buildLaunchRequest i)) = [])
   \<and> Alias (lr_Image (buildLaunchRequest i)) = ImageAlias (in_runnerCfg i)"
  by (simp add: buildLaunchRequest_def Let_def)

end
