(* ===== verification/Goroutine.thy ===== *)
theory Goroutine imports Tracker Limiter Launch "HOL-Library.Multiset" begin

text \<open>
  Goroutines of internal/orchestrator as resumptions. A value of type \<open>proc\<close> is what a
  goroutine still has to do: its next atomic operation and, for every result that operation
  can have, the rest. Operations are the ones the code can be interleaved at: the lock
  sections of the tracker, of \<open>spawnMu\<close> and of \<open>taskMu\<close>, the limiter channels, the wait
  groups, the clock, and every call that leaves the process (GitHub, Incus, metrics). Pure
  computation between two operations is in the continuation. Deferred calls are written at
  every return they run at, in the order Go runs them. Log lines are left out.
\<close>

section \<open>What goroutines exchange with the outside\<close>

text \<open>
  The contexts a call can carry: the orchestrator's own lifecycle context, the context of
  the caller (Run's and the listener's), or a fresh one with its own timeout.
\<close>

datatype ctx = LifecycleCtx | CallerCtx | FreshCtx

text \<open>The methods of MetricsHook; durations in nanoseconds.\<close>

datatype metric =
    RunnerSpawned
  | LaunchOK
  | LaunchFail
  | LaunchDuration duration
  | RunnerLifetime duration
  | Reap string
  | SetTrackedInstances nat

text \<open>
  The results of the calls that leave the process. An error is a string, a GitHub runner
  reference is its ID, a release its three fields.
\<close>

type_synonym release3 = "string \<times> string \<times> string"

type_synonym jit_result = "(string, string \<times> int option) result"

type_synonym launch_result = "(string, Instance) result"

type_synonym list_result = "(string, Instance list) result"

datatype outcome = NoValue | Count int | CtxError

text \<open>
  \<open>Again\<close> goes back to the head of the loop the goroutine is in; the one unbounded loop of the
  package is that of Run.
\<close>

datatype proc =
    Return outcome
  | Again
  | Crash
  | MintAcquire ctx "bool \<Rightarrow> proc"
  | MintRelease proc
  | LaunchAcquire ctx "bool \<Rightarrow> proc"
  | LaunchRelease proc
  | Reserve int "int \<Rightarrow> proc"
  | InflightDec proc
  | StartSpawn "bool \<Rightarrow> proc"
  | TaskDone proc
  | TasksWait proc
  | Go proc proc
  | WgDone proc
  | WgWait proc
  | BeginShutdown proc
  | Select "bool \<Rightarrow> proc"
  | CtxErr ctx "bool \<Rightarrow> proc"
  | Now "time \<Rightarrow> proc"
  | NameSuffix "string \<Rightarrow> proc"
  | TrackAdd trackedRunner proc
  | TrackRemove string proc
  | TrackGet string "trackedRunner option \<Rightarrow> proc"
  | TrackSize "nat \<Rightarrow> proc"
  | TrackNames "string set \<Rightarrow> proc"
  | TrackSnapshot "trackedRunner list \<Rightarrow> proc"
  | MarkIdle string time "bool \<times> bool \<Rightarrow> proc"
  | MarkBusy string time "runnerState \<times> bool \<Rightarrow> proc"
  | MarkForTermination string "runnerState \<times> bool \<Rightarrow> proc"
  | AskTerminationPending string "bool \<Rightarrow> proc"
  | Resolve ctx string "(string, release3) result \<Rightarrow> proc"
  | GenerateJIT ctx string string "jit_result \<Rightarrow> proc"
  | RemoveRunner ctx int "string option \<Rightarrow> proc"
  | IncusLaunch ctx LaunchRequest "launch_result \<Rightarrow> proc"
  | IncusStop ctx string "string option \<Rightarrow> proc"
  | IncusDelete ctx string "string option \<Rightarrow> proc"
  | IncusList ctx string "list_result \<Rightarrow> proc"
  | Metric metric proc

section \<open>The shared state of one orchestrator\<close>

text \<open>
  A call that left the process, as recorded in the log (newest first) with what came back.
\<close>

datatype call =
    CallResolve string bool
  | CallJIT string "int option" bool
  | CallRemoveRunner int
  | CallLaunch string bool
  | CallStop string
  | CallDelete string
  | CallList "string list"
  | CallMetric metric

text \<open>
  The fields of the Orchestrator struct, the two limiters it shares with the other classes,
  its two wait groups and the two contexts. \<open>othersMint\<close> and \<open>othersLaunch\<close> count the
  permits goroutines of other classes hold. \<open>ever\<close> is a ghost: every name that was ever
  tracked, or belongs to an instance an earlier process left behind.
\<close>

record shared =
  s_tracker :: tracker
  spawnInflight :: int
  shuttingDown :: bool
  lifecycleDone :: bool
  callerDone :: bool
  mintLimiter :: Limiter
  launchLimiter :: Limiter
  othersMint :: nat
  othersLaunch :: nat
  tasks :: nat
  reapWg :: nat
  crashed :: bool
  log :: "call list"
  ever :: "string set"

definition ctx_done :: "ctx \<Rightarrow> shared \<Rightarrow> bool" where
  "ctx_done c s = (case c of LifecycleCtx \<Rightarrow> lifecycleDone s | CallerCtx \<Rightarrow> callerDone s | FreshCtx \<Rightarrow> False)"

definition record_call :: "call \<Rightarrow> shared \<Rightarrow> shared" where
  "record_call c s = s\<lparr>log := c # log s\<rparr>"

section \<open>One atomic step\<close>

text \<open>
  What the environment decides in a step: which ready case a select takes, the clock, the
  random suffix, the order of a map iteration, the result of an external call.
\<close>

datatype reply =
    NoReply
  | Choice bool
  | Clock time
  | Suffix string
  | Order "trackedRunner list"
  | ResolveReply "(string, release3) result"
  | JITReply jit_result
  | ErrReply "string option"
  | LaunchReply launch_result
  | ListReply list_result

text \<open>
  The code a goroutine refers to by name: the body of the goroutine startSpawnTask starts,
  and the loop \<open>Again\<close> goes back to.
\<close>

record code =
  spawn_body :: proc
  loop_head :: proc

text \<open>
  \<open>step code r p s\<close> runs the next operation of \<open>p\<close>: the new shared state, what is left of
  \<open>p\<close>, and the goroutines it started. \<open>None\<close> says the operation is blocked, or cannot have
  the reply \<open>r\<close>.
\<close>

primrec step :: "code \<Rightarrow> reply \<Rightarrow> proc \<Rightarrow> shared \<Rightarrow> (shared \<times> proc \<times> proc list) option" where
  "step code r (Return v) s = None"
| "step code r Again s = Some (s, loop_head code, [])"
| "step code r Crash s = Some (s\<lparr>crashed := True\<rparr>, Return NoValue, [])"
| "step code r (MintAcquire c k) s =
     (case r of Choice b \<Rightarrow>
        (if b then map_option (\<lambda>l. (s\<lparr>mintLimiter := l\<rparr>, k True, [])) (limiter_acquire (mintLimiter s))
         else if ctx_done c s then Some (s, k False, []) else None)
      | _ \<Rightarrow> None)"
| "step code r (MintRelease p) s =
     map_option (\<lambda>l. (s\<lparr>mintLimiter := l\<rparr>, p, [])) (limiter_release (mintLimiter s))"
| "step code r (LaunchAcquire c k) s =
     (case r of Choice b \<Rightarrow>
        (if b then map_option (\<lambda>l. (s\<lparr>launchLimiter := l\<rparr>, k True, [])) (limiter_acquire (launchLimiter s))
         else if ctx_done c s then Some (s, k False, []) else None)
      | _ \<Rightarrow> None)"
| "step code r (LaunchRelease p) s =
     map_option (\<lambda>l. (s\<lparr>launchLimiter := l\<rparr>, p, [])) (limiter_release (launchLimiter s))"
| "step code r (Reserve target k) s =
     (let scaleUp = target - (int (tracker_size (s_tracker s)) + spawnInflight s) in
      Some (if scaleUp > 0 then s\<lparr>spawnInflight := spawnInflight s + scaleUp\<rparr> else s, k scaleUp, []))"
| "step code r (InflightDec p) s = Some (s\<lparr>spawnInflight := spawnInflight s - 1\<rparr>, p, [])"
| "step code r (StartSpawn k) s =
     (if shuttingDown s then Some (s, k False, [])
      else Some (s\<lparr>tasks := Suc (tasks s)\<rparr>, k True, [spawn_body code]))"
| "step code r (TaskDone p) s = Some (s\<lparr>tasks := tasks s - 1\<rparr>, p, [])"
| "step code r (TasksWait p) s = (if tasks s = 0 then Some (s, p, []) else None)"
| "step code r (Go c p) s = Some (s\<lparr>reapWg := Suc (reapWg s)\<rparr>, p, [c])"
| "step code r (WgDone p) s = Some (s\<lparr>reapWg := reapWg s - 1\<rparr>, p, [])"
| "step code r (WgWait p) s = (if reapWg s = 0 then Some (s, p, []) else None)"
| "step code r (BeginShutdown p) s = Some (s\<lparr>shuttingDown := True, lifecycleDone := True\<rparr>, p, [])"
| "step code r (Select k) s =
     (case r of Choice b \<Rightarrow> (if b then Some (s, k True, []) else if callerDone s then Some (s, k False, []) else None)
      | _ \<Rightarrow> None)"
| "step code r (CtxErr c k) s = Some (s, k (ctx_done c s), [])"
| "step code r (Now k) s = (case r of Clock t \<Rightarrow> Some (s, k t, []) | _ \<Rightarrow> None)"
| "step code r (NameSuffix k) s = (case r of Suffix x \<Rightarrow> Some (s, k x, []) | _ \<Rightarrow> None)"
| "step code r (TrackAdd t p) s =
     Some (s\<lparr>s_tracker := tracker_add t (s_tracker s), spawnInflight := spawnInflight s - 1,
             ever := insert (tr_Name t) (ever s)\<rparr>, p, [])"
| "step code r (TrackRemove n p) s = Some (s\<lparr>s_tracker := tracker_remove n (s_tracker s)\<rparr>, p, [])"
| "step code r (TrackGet n k) s = Some (s, k (tracker_get n (s_tracker s)), [])"
| "step code r (TrackSize k) s = Some (s, k (tracker_size (s_tracker s)), [])"
| "step code r (TrackNames k) s = Some (s, k (names (s_tracker s)), [])"
| "step code r (TrackSnapshot k) s =
     (case r of Order xs \<Rightarrow> (if mset xs = mset (snapshot (s_tracker s)) then Some (s, k xs, []) else None)
      | _ \<Rightarrow> None)"
| "step code r (MarkIdle n t k) s =
     (let (v, m) = markIdle n t (s_tracker s) in Some (s\<lparr>s_tracker := m\<rparr>, k v, []))"
| "step code r (MarkBusy n t k) s =
     (let (v, m) = markBusy n t (s_tracker s) in Some (s\<lparr>s_tracker := m\<rparr>, k v, []))"
| "step code r (MarkForTermination n k) s =
     (let (v, m) = markForTermination n (s_tracker s) in Some (s\<lparr>s_tracker := m\<rparr>, k v, []))"
| "step code r (AskTerminationPending n k) s = Some (s, k (terminationPending n (s_tracker s)), [])"
| "step code r (Resolve c a k) s =
     (case r of ResolveReply v \<Rightarrow> Some (record_call (CallResolve a (is_ok v)) s, k v, []) | _ \<Rightarrow> None)"
| "step code r (GenerateJIT c n w k) s =
     (case r of JITReply v \<Rightarrow>
        Some (record_call (CallJIT n (case v of Inl _ \<Rightarrow> None | Inr (_, ref) \<Rightarrow> ref) (is_ok v)) s, k v, [])
      | _ \<Rightarrow> None)"
| "step code r (RemoveRunner c i k) s =
     (case r of ErrReply e \<Rightarrow> Some (record_call (CallRemoveRunner i) s, k e, []) | _ \<Rightarrow> None)"
| "step code r (IncusLaunch c q k) s =
     (case r of LaunchReply v \<Rightarrow> Some (record_call (CallLaunch (lr_Name q) (is_ok v)) s, k v, []) | _ \<Rightarrow> None)"
| "step code r (IncusStop c n k) s =
     (case r of ErrReply e \<Rightarrow> Some (record_call (CallStop n) s, k e, []) | _ \<Rightarrow> None)"
| "step code r (IncusDelete c n k) s =
     (case r of ErrReply e \<Rightarrow> Some (record_call (CallDelete n) s, k e, []) | _ \<Rightarrow> None)"
| "step code r (IncusList c pr k) s =
     (case r of ListReply v \<Rightarrow>
        Some (record_call (CallList (case v of Inl _ \<Rightarrow> [] | Inr is \<Rightarrow> map inst_Name is)) s, k v, [])
      | _ \<Rightarrow> None)"
| "step code r (Metric m p) s = Some (record_call (CallMetric m) s, p, [])"

end
