(* ===== verification/Naming.thy ===== *)
theory Naming imports GoRegexp begin

text \<open>
  Runner names (internal/orchestrator/orchestrator.go): sanitizeNamePart, makeRunnerName,
  randomNameSuffix. A slice expression out of range panics, which is \<open>None\<close> here.
\<close>

section \<open>Definitions\<close>

definition valid_rune :: "nat \<Rightarrow> bool" where
  "valid_rune r = (97 \<le> r \<and> r \<le> 122 \<or> 48 \<le> r \<and> r \<le> 57)"

text \<open>The loop over the runes, with \<open>lastDash\<close>.\<close>

fun sanitize_loop :: "nat list \<Rightarrow> bool \<Rightarrow> string" where
  "sanitize_loop [] lastDash = []"
| "sanitize_loop (r # rs) lastDash =
     (if valid_rune r then encode_rune r @ sanitize_loop rs False
      else if \<not> lastDash then CHR ''-'' # sanitize_loop rs True
      else sanitize_loop rs lastDash)"

definition sanitizeNamePart :: "(nat \<Rightarrow> nat) \<Rightarrow> string \<Rightarrow> string" where
  "sanitizeNamePart u value = trim (CHR ''-'') (sanitize_loop (runes (to_lower u value)) False)"

definition slice_from :: "string \<Rightarrow> int \<Rightarrow> string option" where
  "slice_from s i = (if 0 \<le> i \<and> i \<le> int (length s) then Some (drop (nat i) s) else None)"

definition slice_to :: "string \<Rightarrow> int \<Rightarrow> string option" where
  "slice_to s i = (if 0 \<le> i \<and> i \<le> int (length s) then Some (take (nat i) s) else None)"

definition makeRunnerName :: "(nat \<Rightarrow> nat) \<Rightarrow> string \<Rightarrow> string \<Rightarrow> string option" where
  "makeRunnerName u scaleSet0 suffix0 =
     (let scaleSet = sanitizeNamePart u scaleSet0;
          suffix = sanitizeNamePart u suffix0;
          name = trim (CHR ''-'') (scaleSet @ ''-'' @ suffix) in
      if length name > 63 then
        let prefixLen = 63 - int (length suffix) - 1 in
        if prefixLen < 1 then slice_from suffix (int (length suffix) - 63)
        else (case slice_to scaleSet prefixLen of
                None \<Rightarrow> None
              | Some p \<Rightarrow> Some (trim_right (CHR ''-'') p @ ''-'' @ suffix))
      else Some name)"

definition hex_digit :: "nat \<Rightarrow> char" where
  "hex_digit d = (if d < 10 then char_of (48 + d) else char_of (87 + d))"

fun hex_encode :: "nat list \<Rightarrow> string" where
  "hex_encode [] = []"
| "hex_encode (b # bs) = hex_digit (b div 16) # hex_digit (b mod 16) # hex_encode bs"

text \<open>
  \<open>rnd\<close> is what crypto/rand filled the four bytes with, \<open>None\<close> an error; \<open>nanos\<close> is
  time.Now().UnixNano(). The fallback prints the low 32 bits with \<open>%08x\<close>.
\<close>

definition low32_bytes :: "int \<Rightarrow> nat list" where
  "low32_bytes n = (let v = nat (n mod 2 ^ 32) in
     [v div 2 ^ 24 mod 256, v div 2 ^ 16 mod 256, v div 2 ^ 8 mod 256, v mod 256])"

definition randomNameSuffix :: "(nat \<times> nat \<times> nat \<times> nat) option \<Rightarrow> int \<Rightarrow> string" where
  "randomNameSuffix rnd nanos =
     (case rnd of
        None \<Rightarrow> hex_encode (low32_bytes nanos)
      | Some (a, b, c, d) \<Rightarrow> hex_encode [a mod 256, b mod 256, c mod 256, d mod 256])"

section \<open>Shape of a sanitised part\<close>

text \<open>No dash at either end, no two dashes in a row, only lower-case letters and digits between.\<close>

fun no_double_dash :: "string \<Rightarrow> bool" where
  "no_double_dash (a # b # s) = (\<not> (a = CHR ''-'' \<and> b = CHR ''-'') \<and> no_double_dash (b # s))"
| "no_double_dash _ = True"

definition dash_label :: "string \<Rightarrow> bool" where
  "dash_label s \<longleftrightarrow> list_all name_char s \<and> no_double_dash s
     \<and> (s \<noteq> [] \<longrightarrow> hd s \<noteq> CHR ''-'' \<and> last s \<noteq> CHR ''-'')"

lemma valid_rune_char:
  assumes "valid_rune r"
  shows "encode_rune r = [char_of r]" "alnum_char (char_of r)" "char_of r \<noteq> CHR ''-''"
proof -
  from assms have "r < 256" by (auto simp: valid_rune_def)
  then have b: "byte (char_of r) = r" by simp
  with assms show "alnum_char (char_of r)"
    by (auto simp: alnum_char_def is_lower_def is_digit_byte valid_rune_def)
  have "byte (CHR ''-'') = 45" by (simp add: byte_def)
  then show "char_of r \<noteq> CHR ''-''" using assms b by (auto simp: valid_rune_def)
qed (use assms in \<open>auto simp: encode_rune_def valid_rune_def\<close>)

lemma alnum_name_char: "alnum_char c \<Longrightarrow> name_char c"
  by (auto simp: alnum_char_def name_char_def)

lemma sanitize_loop_chars: "list_all name_char (sanitize_loop rs b)"
  by (induction rs b rule: sanitize_loop.induct)
    (auto simp: valid_rune_char alnum_name_char, auto simp: name_char_def)

lemma no_double_dash_Cons:
  "no_double_dash (c # s) \<longleftrightarrow> no_double_dash s \<and> (s = [] \<or> c \<noteq> CHR ''-'' \<or> hd s \<noteq> CHR ''-'')"
  by (cases s) auto

lemma sanitize_loop_dashes:
  "no_double_dash (sanitize_loop rs b)
   \<and> (b \<longrightarrow> sanitize_loop rs b = [] \<or> hd (sanitize_loop rs b) \<noteq> CHR ''-'')"
proof (induction rs b rule: sanitize_loop.induct)
  case (2 r rs b)
  then show ?case
    by (auto simp: valid_rune_char no_double_dash_Cons)
qed simp

lemma no_double_dash_append:
  "no_double_dash (a @ b) \<longleftrightarrow> no_double_dash a \<and> no_double_dash b
     \<and> (a = [] \<or> b = [] \<or> last a \<noteq> CHR ''-'' \<or> hd b \<noteq> CHR ''-'')"
  by (induction a) (auto simp: no_double_dash_Cons hd_append)

lemma trim_right_split: "\<exists>t. s = trim_right c s @ t \<and> set t \<subseteq> {c}"
proof -
  have "s = rev (dropWhile (\<lambda>x. x = c) (rev s)) @ rev (takeWhile (\<lambda>x. x = c) (rev s))"
    by (metis rev_append rev_rev_ident takeWhile_dropWhile_id)
  moreover have "set (rev (takeWhile (\<lambda>x. x = c) (rev s))) \<subseteq> {c}"
    by (auto dest: set_takeWhileD)
  ultimately show ?thesis unfolding trim_right_def by blast
qed

lemma trim_right_last: "trim_right c s \<noteq> [] \<Longrightarrow> last (trim_right c s) \<noteq> c"
  unfolding trim_right_def using hd_dropWhile [of "\<lambda>x. x = c" "rev s"] by (simp add: last_rev)

lemma trim_right_id: "s = [] \<or> last s \<noteq> c \<Longrightarrow> trim_right c s = s"
  by (cases s rule: rev_cases) (auto simp: trim_right_def)

lemma trim_id: "s = [] \<or> hd s \<noteq> c \<and> last s \<noteq> c \<Longrightarrow> trim c s = s"
  by (cases s) (auto simp: trim_def trim_right_id)

lemma trim_split: "\<exists>p q. s = p @ trim c s @ q \<and> set p \<subseteq> {c} \<and> set q \<subseteq> {c}"
proof -
  obtain q where "dropWhile (\<lambda>x. x = c) s = trim c s @ q" "set q \<subseteq> {c}"
    using trim_right_split unfolding trim_def by blast
  moreover have "set (takeWhile (\<lambda>x. x = c) s) \<subseteq> {c}"
    by (auto dest: set_takeWhileD)
  ultimately show ?thesis by (metis takeWhile_dropWhile_id)
qed

lemma trim_ends: "trim c s \<noteq> [] \<Longrightarrow> hd (trim c s) \<noteq> c \<and> last (trim c s) \<noteq> c"
proof
  assume ne: "trim c s \<noteq> []"
  then show "last (trim c s) \<noteq> c" unfolding trim_def by (rule trim_right_last)
  obtain t where t: "dropWhile (\<lambda>x. x = c) s = trim c s @ t"
    using trim_right_split unfolding trim_def by blast
  with ne have "dropWhile (\<lambda>x. x = c) s \<noteq> []" by simp
  then have "hd (trim c s @ t) \<noteq> c" using hd_dropWhile [of "\<lambda>x. x = c" s] t by simp
  with ne show "hd (trim c s) \<noteq> c" by (simp add: hd_append)
qed

lemma sanitize_dash_label: "dash_label (sanitizeNamePart u s)"
proof -
  let ?l = "sanitize_loop (runes (to_lower u s)) False"
  obtain p q where l: "?l = p @ sanitizeNamePart u s @ q"
    using trim_split unfolding sanitizeNamePart_def by blast
  have "list_all name_char (p @ sanitizeNamePart u s @ q)"
    using sanitize_loop_chars [of "runes (to_lower u s)" False] l by simp
  moreover have "no_double_dash (p @ sanitizeNamePart u s @ q)"
    using sanitize_loop_dashes [of "runes (to_lower u s)" False] l by simp
  ultimately show ?thesis
    using trim_ends by (auto simp: dash_label_def no_double_dash_append sanitizeNamePart_def)
qed

section \<open>Parts that are already labels\<close>

lemma name_char_facts:
  assumes "name_char c"
  shows "ascii c" "\<not> is_upper c" "valid_rune (byte c) \<longleftrightarrow> c \<noteq> CHR ''-''"
proof -
  have "byte (CHR ''-'') = 45" by (simp add: byte_def)
  with assms show "ascii c" "\<not> is_upper c" "valid_rune (byte c) \<longleftrightarrow> c \<noteq> CHR ''-''"
    by (auto simp: name_char_def ascii_def is_upper_def is_lower_def is_digit_byte valid_rune_def)
qed

lemma runes_ascii: "list_all ascii s \<Longrightarrow> runes s = map byte s"
  by (induction s) auto

lemma to_lower_name: "list_all name_char s \<Longrightarrow> to_lower u s = s"
  by (intro to_lower_id) (auto simp: list_all_iff name_char_facts)

lemma runes_name: "list_all name_char s \<Longrightarrow> runes (to_lower u s) = map byte s"
  by (simp add: to_lower_name runes_ascii list_all_iff name_char_facts)

lemma sanitize_loop_id:
  "list_all name_char s \<Longrightarrow> no_double_dash s \<Longrightarrow> (b \<longrightarrow> s = [] \<or> hd s \<noteq> CHR ''-'') \<Longrightarrow>
     sanitize_loop (map byte s) b = s"
proof (induction s arbitrary: b)
  case (Cons c s)
  then show ?case
    by (cases "c = CHR ''-''") (auto simp: name_char_facts no_double_dash_Cons valid_rune_char)
qed simp

lemma sanitize_id: "dash_label s \<Longrightarrow> sanitizeNamePart u s = s"
  by (auto simp: sanitizeNamePart_def dash_label_def runes_name sanitize_loop_id trim_id)

lemma sanitize_loop_length: "length (sanitize_loop rs b) \<le> length rs"
  by (induction rs b rule: sanitize_loop.induct) (auto simp: valid_rune_char)

lemma trim_length: "length (trim c s) \<le> length s"
  using trim_split [of s c] by (metis le_add1 le_add2 le_trans length_append)

lemma sanitize_name_length:
  assumes "list_all name_char s"
  shows "length (sanitizeNamePart u s) \<le> length s"
proof -
  have "length (sanitize_loop (map byte s) False) \<le> length s"
    using sanitize_loop_length [of "map byte s" False] by simp
  then show ?thesis
    unfolding sanitizeNamePart_def runes_name [OF assms] using trim_length le_trans by blast
qed

lemma sanitize_name_hd:
  assumes "list_all name_char s" "s \<noteq> []" "is_lower (hd s)"
  shows "sanitizeNamePart u s \<noteq> []" "hd (sanitizeNamePart u s) = hd s"
proof -
  obtain c t where s: "s = c # t" using assms(2) by (cases s) auto
  have "\<not> is_lower (CHR ''-'')" by (simp add: is_lower_def byte_def)
  with s assms have c: "c \<noteq> CHR ''-''" by auto
  with s assms(1) have l: "sanitize_loop (map byte s) False = c # sanitize_loop (map byte t) False"
    using name_char_facts(3) [of c] by (simp add: valid_rune_char)
  obtain p q where "c # sanitize_loop (map byte t) False = p @ sanitizeNamePart u s @ q"
      "set p \<subseteq> {CHR ''-''}" "set q \<subseteq> {CHR ''-''}"
    using trim_split [of "sanitize_loop (map byte s) False"]
    unfolding sanitizeNamePart_def runes_name [OF assms(1)] l by metis
  then obtain p q where pq: "c # sanitize_loop (map byte t) False = p @ sanitizeNamePart u s @ q"
      "set p \<subseteq> {CHR ''-''}" "set q \<subseteq> {CHR ''-''}" by blast
  have p: "p = []" using pq(1,2) c by (cases p) auto
  have "sanitizeNamePart u s \<noteq> [] \<and> hd (sanitizeNamePart u s) = c"
    using pq c p by (cases "sanitizeNamePart u s"; cases q) auto
  then show "sanitizeNamePart u s \<noteq> []" "hd (sanitizeNamePart u s) = hd s"
    using s by simp_all
qed

lemma alnum_not_dash: "alnum_char c \<Longrightarrow> c \<noteq> CHR ''-''"
  by (auto simp: alnum_char_def is_lower_def is_digit_byte byte_def)

lemma alnum_dash_label: "list_all alnum_char s \<Longrightarrow> dash_label s"
proof -
  assume a: "list_all alnum_char s"
  then have n: "\<forall>c \<in> set s. c \<noteq> CHR ''-''" by (auto simp: list_all_iff alnum_not_dash)
  have "(\<forall>c \<in> set s. c \<noteq> CHR ''-'') \<Longrightarrow> no_double_dash s"
    by (induction s) (auto simp: no_double_dash_Cons)
  with a n show ?thesis
    by (auto simp: dash_label_def list_all_iff alnum_name_char)
qed

lemma hex_digit_alnum: "d < 16 \<Longrightarrow> alnum_char (hex_digit d)"
  by (auto simp: hex_digit_def alnum_char_def is_lower_def is_digit_byte)

lemma hex_encode_alnum: "\<forall>b \<in> set bs. b < 256 \<Longrightarrow> list_all alnum_char (hex_encode bs)"
  by (induction bs) (auto simp: hex_digit_alnum)

lemma hex_encode_length: "length (hex_encode bs) = 2 * length bs"
  by (induction bs) auto

lemma randomNameSuffix_facts:
  "length (randomNameSuffix rnd nanos) = 8" "list_all alnum_char (randomNameSuffix rnd nanos)"
proof -
  obtain bs where bs: "randomNameSuffix rnd nanos = hex_encode bs" "length bs = 4" "\<forall>b \<in> set bs. b < 256"
  proof (cases rnd)
    case None
    show ?thesis
      by (rule that [of "low32_bytes nanos"])
        (simp_all add: None randomNameSuffix_def low32_bytes_def Let_def)
  next
    case (Some r)
    obtain a b c d where "r = (a, b, c, d)" by (cases r) auto
    with Some show ?thesis
      by (intro that [of "[a mod 256, b mod 256, c mod 256, d mod 256]"])
        (simp_all add: randomNameSuffix_def del: hex_encode.simps)
  qed
  then show "length (randomNameSuffix rnd nanos) = 8" "list_all alnum_char (randomNameSuffix rnd nanos)"
    using hex_encode_alnum by (simp_all add: hex_encode_length)
qed

section \<open>makeRunnerName\<close>

lemma sanitize_parts_join:
  assumes "dash_label a" "dash_label b"
  shows "trim (CHR ''-'') (a @ ''-'' @ b) = (if a = [] then b else if b = [] then a else a @ ''-'' @ b)"
proof (cases "a = [] \<or> b = []")
  case False
  with assms show ?thesis by (auto simp: dash_label_def intro!: trim_id)
next
  case True
  have "trim (CHR ''-'') (CHR ''-'' # b) = trim (CHR ''-'') b" by (simp add: trim_def)
  moreover have "a \<noteq> [] \<Longrightarrow> trim (CHR ''-'') (a @ ''-'') = trim (CHR ''-'') a"
    using assms by (cases a) (auto simp: trim_def trim_right_def dash_label_def)
  moreover have "trim (CHR ''-'') b = b" "trim (CHR ''-'') a = a"
    using assms by (auto simp: dash_label_def intro!: trim_id)
  ultimately show ?thesis using True by auto
qed

lemma makeRunnerName_eq:
  "makeRunnerName u x y =
     (let a = sanitizeNamePart u x; b = sanitizeNamePart u y;
          n = (if a = [] then b else if b = [] then a else a @ ''-'' @ b) in
      if length n \<le> 63 then Some n
      else if length b \<le> 61 then Some (trim_right (CHR ''-'') (take (62 - length b) a) @ ''-'' @ b)
      else if length b = 62 then None
      else Some (drop (length b - 63) b))"
proof -
  let ?a = "sanitizeNamePart u x" and ?b = "sanitizeNamePart u y"
  have j: "trim (CHR ''-'') (?a @ ''-'' @ ?b)
      = (if ?a = [] then ?b else if ?b = [] then ?a else ?a @ ''-'' @ ?b)"
    by (rule sanitize_parts_join) (rule sanitize_dash_label)+
  have "nat (int (length ?b) - 63) = length ?b - 63" "nat (62 - int (length ?b)) = 62 - length ?b"
    by auto
  then show ?thesis
    unfolding makeRunnerName_def Let_def j slice_from_def slice_to_def by auto
qed

lemma take_label_trim:
  assumes "dash_label a" "a \<noteq> []" "0 < k"
  shows "dash_label (trim_right (CHR ''-'') (take k a)) \<and> trim_right (CHR ''-'') (take k a) \<noteq> []"
proof -
  let ?t = "trim_right (CHR ''-'') (take k a)"
  obtain q where q: "take k a = ?t @ q" "set q \<subseteq> {CHR ''-''}" using trim_right_split by blast
  have a: "a = ?t @ q @ drop k a" using q(1) by (metis append_assoc append_take_drop_id)
  have hd: "hd (take k a) \<noteq> CHR ''-''" using assms by (auto simp: dash_label_def)
  have "take k a \<noteq> []" using assms by auto
  with hd q have ne: "?t \<noteq> []"
    by (metis append_Nil hd_in_set singletonD subsetD)
  have "list_all name_char (?t @ q @ drop k a)" "no_double_dash (?t @ q @ drop k a)"
    using assms(1) a unfolding dash_label_def by metis+
  moreover have "hd ?t \<noteq> CHR ''-''" using hd q ne by (metis hd_append2)
  ultimately show ?thesis
    using ne trim_right_last by (auto simp: dash_label_def no_double_dash_append)
qed

lemma dash_label_join:
  "dash_label a \<Longrightarrow> dash_label b \<Longrightarrow> a \<noteq> [] \<Longrightarrow> b \<noteq> [] \<Longrightarrow> dash_label (a @ ''-'' @ b)"
  by (auto simp: dash_label_def no_double_dash_append no_double_dash_Cons name_char_def)

text \<open>
  C20: whatever the scale set is called, a suffix that keeps between 1 and 61 characters when
  sanitised gives a runner name that exists (no slice panics), is at most 63 bytes, holds
  lower-case letters, digits and single inner dashes only, and ends with the whole suffix.
\<close>

theorem makeRunnerName_valid:
  assumes "sanitizeNamePart u suffix \<noteq> []" and "length (sanitizeNamePart u suffix) \<le> 61"
  shows "\<exists>n. makeRunnerName u scaleSet suffix = Some n \<and> n \<noteq> [] \<and> length n \<le> 63
     \<and> dash_label n \<and> has_suffix (sanitizeNamePart u suffix) n"
proof -
  let ?a = "sanitizeNamePart u scaleSet" and ?b = "sanitizeNamePart u suffix"
  let ?t = "trim_right (CHR ''-'') (take (62 - length ?b) ?a)"
  have lab: "dash_label ?a" "dash_label ?b" by (rule sanitize_dash_label)+
  consider (one) "?a = []" | (short) "?a \<noteq> []" "length (?a @ ''-'' @ ?b) \<le> 63"
    | (long) "?a \<noteq> []" "length (?a @ ''-'' @ ?b) > 63" by linarith
  then show ?thesis
  proof cases
    case one
    with assms lab show ?thesis by (auto simp: makeRunnerName_eq has_suffix_iff)
  next
    case short
    with assms lab show ?thesis
      by (auto simp: makeRunnerName_eq has_suffix_iff Let_def
          intro!: dash_label_join [of ?a ?b, simplified] exI [of _ "?a @ ''-''"])
  next
    case long
    have t: "dash_label ?t" "?t \<noteq> []" using take_label_trim [OF lab(1) long(1)] assms(2) by auto
    have "length ?t \<le> length (take (62 - length ?b) ?a)"
      by (simp only: trim_right_def length_rev) (metis length_dropWhile_le length_rev)
    then have "length ?t \<le> 62 - length ?b" by simp
    then have len: "length (?t @ ''-'' @ ?b) \<le> 63" using assms(2) by simp
    have "makeRunnerName u scaleSet suffix = Some (?t @ ''-'' @ ?b)"
      using long assms by (simp add: makeRunnerName_eq Let_def)
    then show ?thesis
      using dash_label_join [OF t(1) lab(2) t(2) assms(1)] len
      by (auto simp: has_suffix_iff intro!: exI [of _ "?t @ ''-''"])
  qed
qed

theorem makeRunnerName_valid_witness:
  "\<exists>n. makeRunnerName id ''My Pool'' ''00ff12ab'' = Some n \<and> length n \<le> 63 \<and> has_suffix ''00ff12ab'' n"
proof -
  have "sanitizeNamePart id ''00ff12ab'' = ''00ff12ab''" by code_simp
  then show ?thesis using makeRunnerName_valid [of id "''00ff12ab''" "''My Pool''"] by auto
qed

text \<open>
  C21: the exact inputs on which the slice expression of makeRunnerName is out of range and
  the process panics: the sanitised suffix has exactly 62 bytes and the scale-set part is
  not empty.
\<close>

theorem makeRunnerName_panics_iff:
  "makeRunnerName u scaleSet suffix = None \<longleftrightarrow>
     length (sanitizeNamePart u suffix) = 62 \<and> sanitizeNamePart u scaleSet \<noteq> []"
  by (auto simp: makeRunnerName_eq Let_def)

end
