(* ===== verification/Cloudinit.thy ===== *)
theory Cloudinit imports GoStrings begin

text \<open>
  internal/runner/cloudinit.go: the cloud-init payload of a runner. The two templates are
  lists of lines; every line of a payload ends in a newline. text/template copies a field
  as it is, without quoting.
\<close>

section \<open>Specification and validation\<close>

record Release =
  Version :: string
  DownloadURL :: string
  SHA256 :: string

definition zeroRelease :: Release where
  "zeroRelease = \<lparr>Version = [], DownloadURL = [], SHA256 = []\<rparr>"

record CloudInitSpec =
  ci_Release :: Release
  JITConfig :: string
  ci_WorkFolder :: string
  ci_RunnerName :: string
  Baked :: bool
  Container :: bool

datatype cloudinit_error =
    JITConfigRequired
  | RunnerNameRequired
  | ReleaseVersionRequired
  | ReleaseURLRequired
  | ReleaseSHARequired
  | WorkFolderRequired

definition validate_cloudinit :: "CloudInitSpec \<Rightarrow> cloudinit_error option" where
  "validate_cloudinit s =
     (if JITConfig s = [] then Some JITConfigRequired
      else if ci_RunnerName s = [] then Some RunnerNameRequired
      else if Baked s then None
      else if Version (ci_Release s) = [] then Some ReleaseVersionRequired
      else if DownloadURL (ci_Release s) = [] then Some ReleaseURLRequired
      else if SHA256 (ci_Release s) = [] then Some ReleaseSHARequired
      else if ci_WorkFolder s = [] then Some WorkFolderRequired
      else None)"

section \<open>The templates\<close>

definition jit_line :: "CloudInitSpec \<Rightarrow> string" where
  "jit_line s = ''      INCUSE_JIT='' @ JITConfig s"

definition cloudInitTemplate :: "CloudInitSpec \<Rightarrow> string list" where
  "cloudInitTemplate s =
     (let docker = \<not> Container s in
     [''#cloud-config'',
      ''hostname: '' @ ci_RunnerName s,
      ''preserve_hostname: false'',
      '''',
      ''users:'',
      ''  - name: runner'',
      ''    groups: [sudo'' @ (if docker then '', docker'' else '''') @ '']'',
      ''    shell: /bin/bash'',
      ''    sudo: \"ALL=(ALL) NOPASSWD:ALL\"'',
      ''    lock_passwd: true'',
      '''',
      ''package_update: true'',
      ''package_upgrade: false'',
      ''packages:'',
      ''  - curl'',
      ''  - tar'',
      ''  - git'',
      ''  - jq'',
      ''  - ca-certificates'']
     @ (if docker then [''  - docker.io''] else [])
     @ ['''',
      ''write_files:'',
      ''  - path: /etc/incuse/jit.env'',
      ''    permissions: \"0600\"'',
      ''    content: |'',
      jit_line s,
      ''  - path: /etc/systemd/system/incuse-runner.service'',
      ''    permissions: \"0644\"'',
      ''    content: |'',
      ''      [Unit]'',
      ''      Description=GitHub Actions runner (one-shot)'',
      ''      After=network-online.target'' @ (if docker then '' docker.service'' else ''''),
      ''      Wants=network-online.target'' @ (if docker then '' docker.service'' else ''''),
      '''',
      ''      [Service]'',
      ''      Type=oneshot'',
      ''      User=runner'',
      ''      Group=runner'',
      ''      WorkingDirectory=/opt/runner'',
      ''      EnvironmentFile=/etc/incuse/jit.env'',
      ''      ExecStart=/opt/runner/run.sh --jitconfig ${INCUSE_JIT}'',
      ''      ExecStopPost=+/bin/sleep 15'',
      ''      ExecStopPost=+/sbin/poweroff'',
      ''      RemainAfterExit=no'',
      ''      StandardOutput=journal'',
      ''      StandardError=journal'',
      '''',
      ''      [Install]'',
      ''      WantedBy=multi-user.target'',
      '''',
      ''runcmd:'',
      ''  - install -d -o runner -g runner -m 0755 /opt/runner /opt/runner/'' @ ci_WorkFolder s,
      ''  - curl -fsSL \"'' @ DownloadURL (ci_Release s) @ ''\" -o /tmp/runner.tgz'',
      ''  - echo \"'' @ SHA256 (ci_Release s) @ ''  /tmp/runner.tgz\" | sha256sum --check -'',
      ''  - tar -xzf /tmp/runner.tgz -C /opt/runner'',
      ''  - chown -R runner:runner /opt/runner'',
      ''  - rm -f /tmp/runner.tgz'']
     @ (if docker
        then [''  - systemctl enable docker.service'', ''  - systemctl start docker.service'']
        else [])
     @ [''  - systemctl daemon-reload'',
      ''  - systemctl enable --now incuse-runner.service''])"

definition cloudInitBakedTemplate :: "CloudInitSpec \<Rightarrow> string list" where
  "cloudInitBakedTemplate s =
     [''#cloud-config'',
      ''hostname: '' @ ci_RunnerName s,
      ''preserve_hostname: false'',
      '''',
      ''write_files:'',
      ''  - path: /etc/incuse/jit.env'',
      ''    permissions: \"0600\"'',
      ''    content: |'',
      jit_line s,
      '''',
      ''runcmd:'',
      ''  - systemctl start incuse-runner.service'']"

definition newline :: char where "newline = CHR 0x0A"

definition unlines :: "string list \<Rightarrow> string" where
  "unlines ls = concat (map (\<lambda>l. l @ [newline]) ls)"

definition Render :: "CloudInitSpec \<Rightarrow> (cloudinit_error, string) result" where
  "Render s =
     (case validate_cloudinit s of
        Some e \<Rightarrow> Inl e
      | None \<Rightarrow> Inr (unlines (if Baked s then cloudInitBakedTemplate s else cloudInitTemplate s)))"

section \<open>The payload as lines\<close>

text \<open>What a line-oriented reader sees: the maximal newline-free pieces.\<close>

fun split_lines :: "string \<Rightarrow> string list" where
  "split_lines [] = []"
| "split_lines (c # s) =
     (if c = newline then [] # split_lines s
      else (case split_lines s of [] \<Rightarrow> [[c]] | l # ls \<Rightarrow> (c # l) # ls))"

lemma split_lines_line:
  "newline \<notin> set l \<Longrightarrow> split_lines (l @ newline # s) = l # split_lines s"
  by (induction l) auto

lemma split_unlines: "\<forall>l \<in> set ls. newline \<notin> set l \<Longrightarrow> split_lines (unlines ls) = ls"
  by (induction ls) (auto simp: unlines_def split_lines_line)

text \<open>The fields a payload copies are each on one line.\<close>

definition one_line_fields :: "CloudInitSpec \<Rightarrow> bool" where
  "one_line_fields s \<longleftrightarrow> newline \<notin> set (JITConfig s) \<and> newline \<notin> set (ci_RunnerName s)
     \<and> (Baked s \<or> newline \<notin> set (ci_WorkFolder s)
        \<and> newline \<notin> set (DownloadURL (ci_Release s)) \<and> newline \<notin> set (SHA256 (ci_Release s)))"

lemma template_one_line:
  "one_line_fields s \<Longrightarrow> \<not> Baked s \<Longrightarrow> l \<in> set (cloudInitTemplate s) \<Longrightarrow> newline \<notin> set l"
  by (auto simp: cloudInitTemplate_def one_line_fields_def jit_line_def newline_def Let_def
      split: if_splits)

lemma baked_one_line:
  "one_line_fields s \<Longrightarrow> l \<in> set (cloudInitBakedTemplate s) \<Longrightarrow> newline \<notin> set l"
  by (auto simp: cloudInitBakedTemplate_def one_line_fields_def jit_line_def newline_def)

lemma Render_lines:
  assumes "Render s = Inr payload" and "one_line_fields s"
  shows "split_lines payload = (if Baked s then cloudInitBakedTemplate s else cloudInitTemplate s)"
  using assms template_one_line baked_one_line
  by (auto simp: Render_def split_unlines split: option.splits)

section \<open>Reading a payload\<close>

text \<open>
  What a machine that boots with a payload finds in it, by the indentation of its lines and
  without a look at the templates: the value of a key, the block of a key, the items of a
  list, the files to write (path, mode, content), the settings of a systemd unit.
\<close>

definition yaml_value :: "string \<Rightarrow> string list \<Rightarrow> string list" where
  "yaml_value key ls = List.map_filter (cut_prefix (key @ '': '')) ls"

definition yaml_block :: "string \<Rightarrow> string list \<Rightarrow> string list" where
  "yaml_block key ls =
     takeWhile (\<lambda>l. l = [] \<or> hd l = CHR '' '') (tl (dropWhile (\<lambda>l. l \<noteq> key @ '':'') ls))"

definition yaml_items :: "string list \<Rightarrow> string list" where
  "yaml_items ls = List.map_filter (cut_prefix ''  - '') ls"

definition runcmd :: "string list \<Rightarrow> string list" where
  "runcmd ls = yaml_items (yaml_block ''runcmd'' ls)"

text \<open>The lines of a literal block; the empty lines at its end do not count.\<close>

definition yaml_literal :: "string list \<Rightarrow> string list" where
  "yaml_literal ls = rev (dropWhile (\<lambda>l. l = [])
     (rev (map (drop 6) (takeWhile (\<lambda>l. l = [] \<or> has_prefix ''      '' l) ls))))"

fun file_entries :: "string list \<Rightarrow> (string \<times> string \<times> string list) list" where
  "file_entries (a # b # c # ls) =
     (case (cut_prefix ''  - path: '' a, cut_prefix ''    permissions: '' b) of
        (Some path, Some mode) \<Rightarrow>
          if c = ''    content: |'' then (path, mode, yaml_literal ls) # file_entries ls
          else file_entries (b # c # ls)
      | _ \<Rightarrow> file_entries (b # c # ls))"
| "file_entries _ = []"

definition write_files :: "string list \<Rightarrow> (string \<times> string \<times> string list) list" where
  "write_files ls = file_entries (yaml_block ''write_files'' ls)"

definition unit_setting :: "string \<Rightarrow> string list \<Rightarrow> string list" where
  "unit_setting key ls = List.map_filter (cut_prefix (key @ ''='')) ls"

text \<open>
  A payload brings up the runner of a specification: the machine has its name; the token is
  written to one file only, readable by root alone; on a vanilla image the archive is
  fetched, checked against its digest and only then unpacked, and the unit that is written
  reads the token from that file, runs as the user runner and powers the machine off; the
  last command starts the unit; docker is there unless the machine is a container.
\<close>

definition vanilla_unit :: "CloudInitSpec \<Rightarrow> string list \<Rightarrow> bool" where
  "vanilla_unit s conf \<longleftrightarrow>
     unit_setting ''EnvironmentFile'' conf = [''/etc/incuse/jit.env'']
     \<and> unit_setting ''ExecStart'' conf = [''/opt/runner/run.sh --jitconfig ${INCUSE_JIT}'']
     \<and> unit_setting ''User'' conf = [''runner'']
     \<and> unit_setting ''Type'' conf = [''oneshot'']
     \<and> unit_setting ''ExecStopPost'' conf = [''+/bin/sleep 15'', ''+/sbin/poweroff'']
     \<and> unit_setting ''After'' conf
         = [''network-online.target'' @ (if Container s then [] else '' docker.service'')]"

definition vanilla_commands :: "CloudInitSpec \<Rightarrow> string list \<Rightarrow> bool" where
  "vanilla_commands s cmds \<longleftrightarrow>
     (\<exists>setup start. cmds =
        [''install -d -o runner -g runner -m 0755 /opt/runner /opt/runner/'' @ ci_WorkFolder s,
         ''curl -fsSL \"'' @ DownloadURL (ci_Release s) @ ''\" -o /tmp/runner.tgz'',
         ''echo \"'' @ SHA256 (ci_Release s) @ ''  /tmp/runner.tgz\" | sha256sum --check -'',
         ''tar -xzf /tmp/runner.tgz -C /opt/runner''] @ setup @ [start]
      \<and> start = ''systemctl enable --now incuse-runner.service''
      \<and> (''systemctl start docker.service'' \<in> set setup \<longleftrightarrow> \<not> Container s))"

definition brings_up :: "CloudInitSpec \<Rightarrow> string list \<Rightarrow> bool" where
  "brings_up s ls \<longleftrightarrow>
     yaml_value ''hostname'' ls = [ci_RunnerName s]
     \<and> (let jit = (''/etc/incuse/jit.env'', ''\"0600\"'', [''INCUSE_JIT='' @ JITConfig s]) in
        if Baked s then write_files ls = [jit] \<and> runcmd ls = [''systemctl start incuse-runner.service'']
        else (\<exists>conf. write_files ls = [jit, (''/etc/systemd/system/incuse-runner.service'', ''\"0644\"'', conf)]
                \<and> vanilla_unit s conf)
          \<and> vanilla_commands s (runcmd ls)
          \<and> (''docker.io'' \<in> set (yaml_items (yaml_block ''packages'' ls)) \<longleftrightarrow> \<not> Container s))"

lemmas reading = yaml_value_def yaml_block_def yaml_items_def runcmd_def yaml_literal_def write_files_def
  unit_setting_def cut_prefix_def has_prefix_def List.map_filter_simps

lemma baked_brings_up: "Baked s \<Longrightarrow> brings_up s (cloudInitBakedTemplate s)"
  by (simp add: brings_up_def cloudInitBakedTemplate_def jit_line_def reading)

lemma vanilla_brings_up: "\<not> Baked s \<Longrightarrow> brings_up s (cloudInitTemplate s)"
  by (cases "Container s") (simp_all add: brings_up_def cloudInitTemplate_def jit_line_def reading
      vanilla_unit_def vanilla_commands_def)

lemma Render_brings_up: "Render s = Inr payload \<Longrightarrow> one_line_fields s \<Longrightarrow> brings_up s (split_lines payload)"
  using Render_lines baked_brings_up vanilla_brings_up by (cases "Baked s") simp_all

definition golden_spec :: "bool \<Rightarrow> bool \<Rightarrow> CloudInitSpec" where
  "golden_spec baked container =
     \<lparr>ci_Release = \<lparr>Version = ''2.328.0'', DownloadURL = ''https://example/r.tgz'', SHA256 = ''aa''\<rparr>,
      JITConfig = ''ZmFrZQ=='', ci_WorkFolder = ''_work'', ci_RunnerName = ''incuse-runner-abc123'',
      Baked = baked, Container = container\<rparr>"

text \<open>
  Render fails exactly when a field the chosen template needs is empty; in baked mode
  the release and the work folder are not needed and do not influence the payload.
\<close>

theorem Render_fails_iff:
  "(is_ok (Render s) \<longleftrightarrow>
     JITConfig s \<noteq> [] \<and> ci_RunnerName s \<noteq> []
     \<and> (Baked s \<or> Version (ci_Release s) \<noteq> [] \<and> DownloadURL (ci_Release s) \<noteq> []
         \<and> SHA256 (ci_Release s) \<noteq> [] \<and> ci_WorkFolder s \<noteq> []))
   \<and> Render (s\<lparr>Baked := True, ci_Release := r, ci_WorkFolder := w\<rparr>) = Render (s\<lparr>Baked := True\<rparr>)"
  by (auto simp: Render_def validate_cloudinit_def cloudInitBakedTemplate_def jit_line_def
      split: if_splits)

end
