(* ===== verification/Orchestrator.thy ===== *)
theory Orchestrator imports Goroutine Naming Cloudinit begin

text \<open>
  internal/orchestrator/orchestrator.go and reaper.go: the constructor, the goroutines and
  handlers as resumptions, and the system they run in. Every function of the source that can
  be interleaved takes what its caller does next as its last argument.
\<close>

section \<open>The constructor\<close>

text \<open>
  The Config of the package. Only the presence of the collaborators matters to New; the
  scale set is known by its Spec. A limiter that is given is the caller's channel.
\<close>

record orchConfig =
  hasIncusClient :: bool
  scaleSet :: "ScaleSetConfig option"
  hasReleaseResolver :: bool
  hasLogger :: bool
  cfg_IncusCfg :: IncusConfig
  cfg_RunnerCfg :: RunnerConfig
  cfg_MintLimiter :: "Limiter option"
  cfg_LaunchLimiter :: "Limiter option"
  ReapInterval :: duration

datatype new_error =
    IncusClientRequired
  | ScaleSetRequired
  | ReleaseResolverRequired
  | LoggerRequired
  | ProjectRequired
  | DefaultProfileRequired
  | RegistrationTimeoutNotPositive
  | MaxJobDurationNotPositive
  | MaxParallelMintsNotPositive
  | MaxParallelLaunchesNotPositive
  | MaxRunnersNotPositive
  | RunnerShapeNotPositive
  | RunnerArchUnknown

text \<open>What an orchestrator reads while it runs, besides the shared state.\<close>

record orch =
  o_lower :: "nat \<Rightarrow> nat"
  o_spec :: ScaleSetConfig
  o_scaleSetID :: int
  o_incusCfg :: IncusConfig
  o_runnerCfg :: RunnerConfig
  o_reapInterval :: duration

definition init_shared :: "Limiter \<Rightarrow> Limiter \<Rightarrow> string set \<Rightarrow> shared" where
  "init_shared ml ll old =
     \<lparr>s_tracker = newInstanceTracker, spawnInflight = 0, shuttingDown = False,
      lifecycleDone = False, callerDone = False, mintLimiter = ml, launchLimiter = ll,
      othersMint = inUse ml, othersLaunch = inUse ll, tasks = 0, reapWg = 0,
      crashed = False, log = [], ever = old\<rparr>"

definition check_new :: "orchConfig \<Rightarrow> new_error option" where
  "check_new c =
     (if \<not> hasIncusClient c then Some IncusClientRequired
      else case scaleSet c of None \<Rightarrow> Some ScaleSetRequired | Some spec \<Rightarrow>
        if \<not> hasReleaseResolver c then Some ReleaseResolverRequired
        else if \<not> hasLogger c then Some LoggerRequired
        else if Project (cfg_IncusCfg c) = [] then Some ProjectRequired
        else if DefaultProfile (cfg_IncusCfg c) = [] then Some DefaultProfileRequired
        else if RegistrationTimeout (cfg_RunnerCfg c) \<le> 0 then Some RegistrationTimeoutNotPositive
        else if MaxJobDuration (cfg_RunnerCfg c) \<le> 0 then Some MaxJobDurationNotPositive
        else if MaxParallelMints (cfg_RunnerCfg c) \<le> 0 then Some MaxParallelMintsNotPositive
        else if MaxParallelLaunches (cfg_RunnerCfg c) \<le> 0 then Some MaxParallelLaunchesNotPositive
        else if ss_MaxRunners spec \<le> 0 then Some MaxRunnersNotPositive
        else if spec_VCPUs (ss_Runner spec) \<le> 0 \<or> spec_MemoryMB (ss_Runner spec) \<le> 0
          \<or> spec_DiskGB (ss_Runner spec) \<le> 0 then Some RunnerShapeNotPositive
        else if spec_Arch (ss_Runner spec) \<noteq> ArchAMD64 \<and> spec_Arch (ss_Runner spec) \<noteq> ArchARM64
          then Some RunnerArchUnknown
        else None)"

text \<open>
  \<open>scaleSetID\<close> is what ScaleSetID() returns after Bootstrap, \<open>addr\<close> the identity of the next
  channel to be made, \<open>old\<close> the names of the instances on the host when the process starts
  (a ghost).
\<close>

definition New ::
  "(nat \<Rightarrow> nat) \<Rightarrow> nat \<Rightarrow> int \<Rightarrow> string set \<Rightarrow> orchConfig \<Rightarrow> (new_error, orch \<times> shared) result" where
  "New u addr scaleSetID old c =
     (case check_new c of
        Some e \<Rightarrow> Inl e
      | None \<Rightarrow>
          let ml = (case cfg_MintLimiter c of Some l \<Rightarrow> l
                    | None \<Rightarrow> the (NewLimiter addr (MaxParallelMints (cfg_RunnerCfg c))));
              ll = (case cfg_LaunchLimiter c of Some l \<Rightarrow> l
                    | None \<Rightarrow> the (NewLimiter (Suc addr) (MaxParallelLaunches (cfg_RunnerCfg c)))) in
          Inr (\<lparr>o_lower = u, o_spec = the (scaleSet c), o_scaleSetID = scaleSetID,
                o_incusCfg = cfg_IncusCfg c, o_runnerCfg = cfg_RunnerCfg c,
                o_reapInterval = (if ReapInterval c = 0 then 30 * second else ReapInterval c)\<rparr>,
               init_shared ml ll old))"

lemma check_new_None_iff:
  "check_new c = None \<longleftrightarrow>
     hasIncusClient c \<and> hasReleaseResolver c \<and> hasLogger c
     \<and> Project (cfg_IncusCfg c) \<noteq> [] \<and> DefaultProfile (cfg_IncusCfg c) \<noteq> []
     \<and> 0 < RegistrationTimeout (cfg_RunnerCfg c) \<and> 0 < MaxJobDuration (cfg_RunnerCfg c)
     \<and> 0 < MaxParallelMints (cfg_RunnerCfg c) \<and> 0 < MaxParallelLaunches (cfg_RunnerCfg c)
     \<and> (\<exists>spec. scaleSet c = Some spec \<and> 0 < ss_MaxRunners spec
          \<and> 0 < spec_VCPUs (ss_Runner spec) \<and> 0 < spec_MemoryMB (ss_Runner spec)
          \<and> 0 < spec_DiskGB (ss_Runner spec)
          \<and> spec_Arch (ss_Runner spec) \<in> {ArchAMD64, ArchARM64})"
  by (cases "scaleSet c") (simp_all add: check_new_def not_le linorder_not_less [symmetric], auto)

text \<open>
  New succeeds exactly when the collaborators it cannot do without are there and the
  limits and the shape of the class are positive; then the orchestrator starts with an empty
  tracker, no reservation and no task, and limiters that were not shared have exactly the
  configured number of permits, all free.
\<close>

theorem New_accepts_iff:
  "(is_ok (New u addr sid old c) \<longleftrightarrow>
      hasIncusClient c \<and> hasReleaseResolver c \<and> hasLogger c
      \<and> Project (cfg_IncusCfg c) \<noteq> [] \<and> DefaultProfile (cfg_IncusCfg c) \<noteq> []
      \<and> 0 < RegistrationTimeout (cfg_RunnerCfg c) \<and> 0 < MaxJobDuration (cfg_RunnerCfg c)
      \<and> 0 < MaxParallelMints (cfg_RunnerCfg c) \<and> 0 < MaxParallelLaunches (cfg_RunnerCfg c)
      \<and> (\<exists>spec. scaleSet c = Some spec \<and> 0 < ss_MaxRunners spec
           \<and> 0 < spec_VCPUs (ss_Runner spec) \<and> 0 < spec_MemoryMB (ss_Runner spec)
           \<and> 0 < spec_DiskGB (ss_Runner spec)
           \<and> spec_Arch (ss_Runner spec) \<in> {ArchAMD64, ArchARM64}))
   \<and> (case New u addr sid old c of Inl e \<Rightarrow> True | Inr (o1, s) \<Rightarrow>
        s_tracker s = [] \<and> spawnInflight s = 0 \<and> tasks s = 0 \<and> \<not> shuttingDown s
        \<and> (cfg_MintLimiter c = None \<longrightarrow>
             mintLimiter s = \<lparr>chan = addr, capacity = nat (MaxParallelMints (cfg_RunnerCfg c)), inUse = 0\<rparr>)
        \<and> (cfg_LaunchLimiter c = None \<longrightarrow>
             launchLimiter s = \<lparr>chan = Suc addr, capacity = nat (MaxParallelLaunches (cfg_RunnerCfg c)), inUse = 0\<rparr>))"
proof -
  have ok: "is_ok (New u addr sid old c) \<longleftrightarrow> check_new c = None"
    by (cases "check_new c") (simp_all add: New_def Let_def)
  have "case New u addr sid old c of Inl e \<Rightarrow> True | Inr (o1, s) \<Rightarrow>
        s_tracker s = [] \<and> spawnInflight s = 0 \<and> tasks s = 0 \<and> \<not> shuttingDown s
        \<and> (cfg_MintLimiter c = None \<longrightarrow>
             mintLimiter s = \<lparr>chan = addr, capacity = nat (MaxParallelMints (cfg_RunnerCfg c)), inUse = 0\<rparr>)
        \<and> (cfg_LaunchLimiter c = None \<longrightarrow>
             launchLimiter s = \<lparr>chan = Suc addr, capacity = nat (MaxParallelLaunches (cfg_RunnerCfg c)), inUse = 0\<rparr>)"
  proof (cases "check_new c")
    case None
    then have "0 < MaxParallelMints (cfg_RunnerCfg c)" "0 < MaxParallelLaunches (cfg_RunnerCfg c)"
      by (simp_all add: check_new_None_iff)
    with None show ?thesis by (simp add: New_def Let_def init_shared_def newInstanceTracker_def NewLimiter_def)
  qed (simp add: New_def)
  then show ?thesis unfolding ok check_new_None_iff by blast
qed

section \<open>Removing a runner from GitHub\<close>

definition removeRunnerByID :: "ctx \<Rightarrow> int \<Rightarrow> proc \<Rightarrow> proc" where
  "removeRunnerByID c runnerID k =
     (if runnerID = 0 then k
      else CtxErr c (\<lambda>done. RemoveRunner (if done then FreshCtx else c) runnerID (\<lambda>_. k)))"

definition removeRunnerBestEffort :: "ctx \<Rightarrow> int option \<Rightarrow> proc \<Rightarrow> proc" where
  "removeRunnerBestEffort c ref k =
     (case ref of None \<Rightarrow> k | Some i \<Rightarrow> removeRunnerByID c i k)"

definition runnerRefID :: "int option \<Rightarrow> int" where
  "runnerRefID ref = (case ref of None \<Rightarrow> 0 | Some i \<Rightarrow> i)"

section \<open>Terminating an instance\<close>

text \<open>Metrics.SetTrackedInstances of the tracker's size.\<close>

definition setTracked :: "proc \<Rightarrow> proc" where
  "setTracked k = TrackSize (\<lambda>n. Metric (SetTrackedInstances n) k)"

definition terminateInstance :: "ctx \<Rightarrow> string \<Rightarrow> proc \<Rightarrow> proc" where
  "terminateInstance c runnerName k =
     MarkForTermination runnerName (\<lambda>(state, ok).
       if ok \<and> state = StatusLaunching then k
       else
         TrackGet runnerName (\<lambda>r.
           let rest = TrackRemove runnerName (setTracked
                 (IncusStop c runnerName (\<lambda>_. IncusDelete c runnerName (\<lambda>_. k)))) in
           case r of
             Some v \<Rightarrow> Now (\<lambda>t. Metric (RunnerLifetime (time_sub t (MintedAt v))) rest)
           | None \<Rightarrow> rest))"

section \<open>Launching\<close>

text \<open>
  launch: the deferred release of the launch limiter stands before the final \<open>k\<close> of every
  path past the acquisition.
\<close>

definition launch :: "ctx \<Rightarrow> LaunchRequest \<Rightarrow> trackedRunner \<Rightarrow> proc \<Rightarrow> proc" where
  "launch c req tracked k =
     LaunchAcquire c (\<lambda>acquired.
       if \<not> acquired then
         TrackRemove (tr_Name tracked) (setTracked (removeRunnerByID c (RunnerID tracked) k))
       else
         AskTerminationPending (tr_Name tracked) (\<lambda>pending.
           if pending then
             TrackRemove (tr_Name tracked) (setTracked
               (removeRunnerByID c (RunnerID tracked) (LaunchRelease k)))
           else
             Now (\<lambda>start. IncusLaunch c req (\<lambda>res.
               Now (\<lambda>stop. Metric (LaunchDuration (time_sub stop start)) (
                 case res of
                   Inl err \<Rightarrow>
                     Metric LaunchFail (TrackRemove (tr_Name tracked) (setTracked
                       (removeRunnerByID c (RunnerID tracked) (LaunchRelease k))))
                 | Inr inst \<Rightarrow>
                     Metric LaunchOK (Now (\<lambda>t. MarkIdle (tr_Name tracked) t
                       (\<lambda>(terminationRequested, _).
                         if terminationRequested then
                           terminateInstance c (tr_Name tracked)
                             (removeRunnerByID c (RunnerID tracked) (LaunchRelease k))
                         else LaunchRelease k)))))))))"

section \<open>Spawning\<close>

definition zero3 :: release3 where "zero3 = ([], [], [])"

definition release_of :: "release3 \<Rightarrow> Release" where
  "release_of r = (case r of (v, d, h) \<Rightarrow> \<lparr>Version = v, DownloadURL = d, SHA256 = h\<rparr>)"

definition launch_inputs :: "orch \<Rightarrow> string \<Rightarrow> string \<Rightarrow> time \<Rightarrow> launchInputs" where
  "launch_inputs o1 runnerName cloudInit mintedAt =
     \<lparr>in_runnerName = runnerName, in_spec = ss_Runner (o_spec o1), in_incusCfg = o_incusCfg o1,
      in_runnerCfg = o_runnerCfg o1, in_cloudInit = cloudInit, in_scaleSetID = o_scaleSetID o1,
      in_mintedAt = mintedAt, in_description = ''incuse runner '' @ runnerName\<rparr>"

definition tracked_of :: "orch \<Rightarrow> string \<Rightarrow> int option \<Rightarrow> time \<Rightarrow> trackedRunner" where
  "tracked_of o1 runnerName ref mintedAt =
     \<lparr>tr_Name = runnerName, RunnerID = runnerRefID ref, MintedAt = mintedAt, ReadyAt = 0,
      BusyAt = 0, Spec = ss_Runner (o_spec o1), tr_ScaleSetID = o_scaleSetID o1,
      State = StatusLaunching, TerminationPending = False\<rparr>"

definition cloud_init_spec :: "orch \<Rightarrow> release3 \<Rightarrow> string \<Rightarrow> string \<Rightarrow> CloudInitSpec" where
  "cloud_init_spec o1 rel jit runnerName =
     \<lparr>ci_Release = release_of rel, JITConfig = jit, ci_WorkFolder = WorkFolder (o_runnerCfg o1),
      ci_RunnerName = runnerName, Baked = UseBakedImage (o_runnerCfg o1),
      Container = (InstanceType (o_runnerCfg o1) = InstanceTypeContainer)\<rparr>"

text \<open>
  spawnIdleRunner. \<open>abort\<close> is what the two deferred functions do on an early return while
  the mint limiter is held and the reservation is open; the goroutine's own deferred
  tasks.Done comes last.
\<close>

definition spawn_tail :: "orch \<Rightarrow> string \<Rightarrow> string \<Rightarrow> int option \<Rightarrow> time \<Rightarrow> proc" where
  "spawn_tail o1 runnerName cloudInit ref mintedAt =
     (let tracked = tracked_of o1 runnerName ref mintedAt;
          req = buildLaunchRequest (launch_inputs o1 runnerName cloudInit mintedAt) in
      TrackAdd tracked (Metric RunnerSpawned (setTracked
        (MintRelease (launch LifecycleCtx req tracked (TaskDone (Return NoValue)))))))"

definition spawn_mint :: "orch \<Rightarrow> release3 \<Rightarrow> proc" where
  "spawn_mint o1 rel =
     (let abort = MintRelease (InflightDec (TaskDone (Return NoValue))) in
      NameSuffix (\<lambda>suffix.
        case makeRunnerName (o_lower o1) (ss_Name (o_spec o1)) suffix of
          None \<Rightarrow> Crash
        | Some runnerName \<Rightarrow>
            GenerateJIT LifecycleCtx runnerName (WorkFolder (o_runnerCfg o1)) (\<lambda>res.
              case res of
                Inl err \<Rightarrow> abort
              | Inr (jit, ref) \<Rightarrow>
                  (case Render (cloud_init_spec o1 rel jit runnerName) of
                     Inl err \<Rightarrow> removeRunnerBestEffort LifecycleCtx ref abort
                   | Inr cloudInit \<Rightarrow>
                       Now (\<lambda>mintedAt. spawn_tail o1 runnerName cloudInit ref mintedAt)))))"

definition spawnIdleRunner :: "orch \<Rightarrow> proc" where
  "spawnIdleRunner o1 =
     MintAcquire LifecycleCtx (\<lambda>acquired.
       if \<not> acquired then InflightDec (TaskDone (Return NoValue))
       else if \<not> UseBakedImage (o_runnerCfg o1) then
         Resolve LifecycleCtx (spec_Arch (ss_Runner (o_spec o1))) (\<lambda>res.
           case res of
             Inl err \<Rightarrow> MintRelease (InflightDec (TaskDone (Return NoValue)))
           | Inr rel \<Rightarrow> spawn_mint o1 rel)
       else spawn_mint o1 zero3)"

section \<open>The Scaler handlers\<close>

definition clamp_target :: "int \<Rightarrow> int \<Rightarrow> int" where
  "clamp_target maxRunners requested =
     (let target = (if requested > maxRunners then maxRunners else requested) in if target < 0 then 0 else target)"

fun spawn_loop :: "nat \<Rightarrow> proc \<Rightarrow> proc" where
  "spawn_loop 0 k = k"
| "spawn_loop (Suc n) k = StartSpawn (\<lambda>ok. if ok then spawn_loop n k else InflightDec (spawn_loop n k))"

definition HandleDesiredRunnerCount :: "orch \<Rightarrow> int \<Rightarrow> proc" where
  "HandleDesiredRunnerCount o1 requested =
     (let target = clamp_target (ss_MaxRunners (o_spec o1)) requested in
      Reserve target (\<lambda>scaleUp. spawn_loop (nat scaleUp) (Return (Count target))))"

text \<open>An event is its runner name; \<open>None\<close> is a nil event.\<close>

definition HandleJobStarted :: "string option \<Rightarrow> proc" where
  "HandleJobStarted event =
     (case event of
        None \<Rightarrow> Return NoValue
      | Some runnerName \<Rightarrow>
          if runnerName = [] then Return NoValue
          else Now (\<lambda>t. MarkBusy runnerName t (\<lambda>_. Return NoValue)))"

definition HandleJobCompleted :: "string option \<Rightarrow> proc" where
  "HandleJobCompleted event =
     (case event of
        None \<Rightarrow> Return NoValue
      | Some runnerName \<Rightarrow>
          if runnerName = [] then Return NoValue
          else TrackGet runnerName (\<lambda>r.
            case r of
              None \<Rightarrow> Return NoValue
            | Some _ \<Rightarrow>
                Metric (Reap ''job_completed'')
                  (terminateInstance CallerCtx runnerName (Return NoValue))))"

section \<open>The reaper\<close>

definition reapTracked :: "orch \<Rightarrow> ctx \<Rightarrow> trackedRunner \<Rightarrow> time \<Rightarrow> proc \<Rightarrow> proc" where
  "reapTracked o1 c r now k =
     (case State r of
        StatusBusy \<Rightarrow>
          if time_sub now (BusyAt r) > MaxJobDuration (o_runnerCfg o1) then
            Metric (Reap ''max_job_duration'') (terminateInstance c (tr_Name r)
              (removeRunnerByID c (RunnerID r) k))
          else k
      | _ \<Rightarrow>
          if time_sub now (MintedAt r) > RegistrationTimeout (o_runnerCfg o1) then
            Metric (Reap ''registration_timeout'') (terminateInstance c (tr_Name r)
              (removeRunnerByID c (RunnerID r) k))
          else k)"

text \<open>
  parallelReap: each element of the list is the body of one goroutine, waiting for what its
  deferred calls do (release the permit, then wg.Done).
\<close>

fun parallelReap :: "ctx \<Rightarrow> (proc \<Rightarrow> proc) list \<Rightarrow> proc \<Rightarrow> proc" where
  "parallelReap c [] k = WgWait k"
| "parallelReap c (reap # reaps) k =
     LaunchAcquire c (\<lambda>acquired.
       if \<not> acquired then WgWait k
       else Go (reap (LaunchRelease (WgDone (Return NoValue)))) (parallelReap c reaps k))"

definition is_orphan :: "orch \<Rightarrow> string set \<Rightarrow> Instance \<Rightarrow> bool" where
  "is_orphan o1 known inst =
     (if cfg_get (inst_Config inst) metaManaged \<noteq> ''true''
        \<or> cfg_get (inst_Config inst) metaScaleSetID \<noteq> itoa (o_scaleSetID o1) then False
      else \<not> inst_Name inst \<in> known)"

definition driftSweep :: "orch \<Rightarrow> ctx \<Rightarrow> proc \<Rightarrow> proc" where
  "driftSweep o1 c k =
     IncusList c (Project (o_incusCfg o1)) (\<lambda>res.
       case res of
         Inl err \<Rightarrow> k
       | Inr remote \<Rightarrow>
           TrackNames (\<lambda>known.
             let orphans = filter (is_orphan o1 known) remote in
             parallelReap c
               (map (\<lambda>inst rest. Metric (Reap ''drift_sweep'')
                  (IncusStop c (inst_Name inst) (\<lambda>_. IncusDelete c (inst_Name inst) (\<lambda>_. rest))))
                orphans) k))"

definition reapOnce :: "orch \<Rightarrow> ctx \<Rightarrow> proc \<Rightarrow> proc" where
  "reapOnce o1 c k =
     Now (\<lambda>now. TrackSnapshot (\<lambda>tracked.
       parallelReap c (map (\<lambda>r. reapTracked o1 c r now) tracked)
         (CtxErr c (\<lambda>done. if done then k else driftSweep o1 c k))))"

section \<open>Run\<close>

definition run_shutdown :: proc where
  "run_shutdown = BeginShutdown (TasksWait (Return CtxError))"

text \<open>
  The loop of Run: it ends only by the context. run_shutdown is the deferred function, which
  runs at the one return.
\<close>

definition Run :: "orch \<Rightarrow> proc" where
  "Run o1 = Select (\<lambda>tick. if tick then reapOnce o1 CallerCtx Again else run_shutdown)"

definition program :: "orch \<Rightarrow> code" where
  "program o1 = \<lparr>spawn_body = spawnIdleRunner o1, loop_head = Run o1\<rparr>"

lemma program_simps [simp]: "spawn_body (program o1) = spawnIdleRunner o1" "loop_head (program o1) = Run o1"
  by (simp_all add: program_def)

section \<open>The system\<close>

text \<open>The goroutines of one orchestrator over its shared state.\<close>

record sys =
  shared :: shared
  threads :: "proc list"

text \<open>
  A transition: a goroutine runs its next operation, the listener calls a handler, a class
  that shares the limiters takes or gives back a permit, the process context is cancelled.
\<close>

datatype label =
    Thread nat reply
  | Desired int
  | JobStarted "string option"
  | JobCompleted "string option"
  | OthersMint bool
  | OthersLaunch bool
  | CancelCaller

fun sys_step :: "orch \<Rightarrow> label \<Rightarrow> sys \<Rightarrow> sys option" where
  "sys_step o1 (Thread i r) y =
     (if i < length (threads y) \<and> \<not> crashed (shared y) then
        map_option (\<lambda>(s, p, new). \<lparr>shared = s, threads = (threads y)[i := p] @ new\<rparr>)
          (step (program o1) r (threads y ! i) (shared y))
      else None)"
| "sys_step o1 (Desired n) y = Some (y\<lparr>threads := threads y @ [HandleDesiredRunnerCount o1 n]\<rparr>)"
| "sys_step o1 (JobStarted e) y = Some (y\<lparr>threads := threads y @ [HandleJobStarted e]\<rparr>)"
| "sys_step o1 (JobCompleted e) y = Some (y\<lparr>threads := threads y @ [HandleJobCompleted e]\<rparr>)"
| "sys_step o1 (OthersMint b) y =
     (let s = shared y in
      if b then map_option (\<lambda>l. y\<lparr>shared := s\<lparr>mintLimiter := l, othersMint := Suc (othersMint s)\<rparr>\<rparr>)
             (limiter_acquire (mintLimiter s))
      else if othersMint s = 0 then None
      else map_option (\<lambda>l. y\<lparr>shared := s\<lparr>mintLimiter := l, othersMint := othersMint s - 1\<rparr>\<rparr>)
             (limiter_release (mintLimiter s)))"
| "sys_step o1 (OthersLaunch b) y =
     (let s = shared y in
      if b then map_option (\<lambda>l. y\<lparr>shared := s\<lparr>launchLimiter := l, othersLaunch := Suc (othersLaunch s)\<rparr>\<rparr>)
             (limiter_acquire (launchLimiter s))
      else if othersLaunch s = 0 then None
      else map_option (\<lambda>l. y\<lparr>shared := s\<lparr>launchLimiter := l, othersLaunch := othersLaunch s - 1\<rparr>\<rparr>)
             (limiter_release (launchLimiter s)))"
| "sys_step o1 CancelCaller y = Some (y\<lparr>shared := (shared y)\<lparr>callerDone := True\<rparr>\<rparr>)"

text \<open>The calls of the listener, and the step in which the select of Run takes the tick.\<close>

fun handler :: "label \<Rightarrow> bool" where
  "handler (Desired n) = True"
| "handler (JobStarted e) = True"
| "handler (JobCompleted e) = True"
| "handler l = False"

fun takes_tick :: "reply \<Rightarrow> proc \<Rightarrow> bool" where
  "takes_tick (Choice True) (Select k) = True"
| "takes_tick r p = False"

definition init_sys :: "orch \<Rightarrow> shared \<Rightarrow> sys" where
  "init_sys o1 s = \<lparr>shared = s, threads = [Run o1]\<rparr>"

text \<open>
  The reachable states of an orchestrator from a fresh shared state, along transitions the
  environment assumption \<open>A\<close> allows.
\<close>

inductive reachable :: "orch \<Rightarrow> (label \<Rightarrow> sys \<Rightarrow> bool) \<Rightarrow> shared \<Rightarrow> sys \<Rightarrow> bool"
  for o1 A s0 where
  reach_init: "reachable o1 A s0 (init_sys o1 s0)"
| reach_step: "reachable o1 A s0 y \<Longrightarrow> A l y \<Longrightarrow> sys_step o1 l y = Some y' \<Longrightarrow> reachable o1 A s0 y'"

definition any_env :: "label \<Rightarrow> sys \<Rightarrow> bool" where "any_env l y = True"

text \<open>Running a whole schedule.\<close>

fun sys_run :: "orch \<Rightarrow> label list \<Rightarrow> sys \<Rightarrow> sys option" where
  "sys_run o1 [] y = Some y"
| "sys_run o1 (l # ls) y = (case sys_step o1 l y of None \<Rightarrow> None | Some y' \<Rightarrow> sys_run o1 ls y')"

lemma sys_run_reachable:
  "reachable o1 any_env s0 y \<Longrightarrow> sys_run o1 ls y = Some y' \<Longrightarrow> reachable o1 any_env s0 y'"
proof (induction ls arbitrary: y)
  case (Cons l ls)
  then show ?case
    by (auto simp: any_env_def split: option.splits intro: reachable.reach_step)
qed simp

text \<open>Running a schedule an environment assumption has to allow at every step.\<close>

fun run_within :: "orch \<Rightarrow> (label \<Rightarrow> sys \<Rightarrow> bool) \<Rightarrow> label list \<Rightarrow> sys \<Rightarrow> sys option" where
  "run_within o1 A [] y = Some y"
| "run_within o1 A (l # ls) y =
     (if A l y then (case sys_step o1 l y of None \<Rightarrow> None | Some y' \<Rightarrow> run_within o1 A ls y') else None)"

lemma run_within_reachable:
  "reachable o1 A s0 y \<Longrightarrow> run_within o1 A ls y = Some y' \<Longrightarrow> reachable o1 A s0 y'"
proof (induction ls arbitrary: y)
  case (Cons l ls)
  then show ?case by (auto split: option.splits if_splits intro: reachable.reach_step)
qed simp

inductive_cases reachable_stepE: "reachable o1 A s0 y"

text \<open>
  An invariant of the system: it holds at the start and every allowed transition keeps it.
  Then it holds in every reachable state, and along every schedule.
\<close>

locale system_invariant =
  fixes o1 :: orch and A :: "label \<Rightarrow> sys \<Rightarrow> bool" and s0 :: shared and Inv :: "sys \<Rightarrow> bool"
  assumes starts: "Inv (init_sys o1 s0)"
    and keeps: "Inv y \<Longrightarrow> A l y \<Longrightarrow> sys_step o1 l y = Some y' \<Longrightarrow> Inv y'"
begin

lemma holds: "reachable o1 A s0 y \<Longrightarrow> Inv y"
  by (induction rule: reachable.induct) (auto intro: starts keeps simp del: sys_step.simps)

lemma holds_after: "run_within o1 A ls (init_sys o1 s0) = Some y \<Longrightarrow> Inv y"
  by (rule holds) (rule run_within_reachable [OF reach_init])

end

end
