(* ===== verification/Orchestrator_Resources.thy ===== *)
theory Orchestrator_Resources imports Orchestrator begin

text \<open>
  Resource accounting of the goroutines. \<open>owes M p i m l t w\<close> says that on every path \<open>p\<close>
  gives back exactly \<open>i\<close> spawn reservations, \<open>m\<close> mint permits, \<open>l\<close> launch permits, \<open>t\<close>
  lifecycle tasks and \<open>w\<close> reaper tasks, resolves, mints and launches only as a lifecycle
  task, never takes a permit while it holds one, never
  waits for a group it belongs to, and reserves up to at most \<open>M\<close> runners. The goroutines
  of the program satisfy it, a step keeps it, so the counters of the shared state are the
  sums of what the goroutines owe, in every interleaving.
\<close>

section \<open>What a goroutine owes\<close>

primrec owes :: "int \<Rightarrow> proc \<Rightarrow> nat \<Rightarrow> nat \<Rightarrow> nat \<Rightarrow> nat \<Rightarrow> nat \<Rightarrow> bool" where
  "owes M (Return v) i m l t w = (i = 0 \<and> m = 0 \<and> l = 0 \<and> t = 0 \<and> w = 0)"
| "owes M Again i m l t w = (i = 0 \<and> m = 0 \<and> l = 0 \<and> t = 0 \<and> w = 0)"
| "owes M Crash i m l t w = True"
| "owes M (MintAcquire c k) i m l t w =
     (m = 0 \<and> l = 0 \<and> owes M (k True) i 1 l t w \<and> owes M (k False) i 0 l t w)"
| "owes M (MintRelease p) i m l t w = (0 < m \<and> owes M p i (m - 1) l t w)"
| "owes M (LaunchAcquire c k) i m l t w =
     (m = 0 \<and> l = 0 \<and> owes M (k True) i m 1 t w \<and> owes M (k False) i m 0 t w)"
| "owes M (LaunchRelease p) i m l t w = (0 < l \<and> owes M p i m (l - 1) t w)"
| "owes M (Reserve target k) i m l t w = (target \<le> M \<and> (\<forall>n. owes M (k n) (i + nat n) m l t w))"
| "owes M (InflightDec p) i m l t w = (0 < i \<and> owes M p (i - 1) m l t w)"
| "owes M (StartSpawn k) i m l t w =
     (0 < i \<and> owes M (k True) (i - 1) m l t w \<and> owes M (k False) i m l t w)"
| "owes M (TaskDone p) i m l t w = (0 < t \<and> owes M p i m l (t - 1) w)"
| "owes M (TasksWait p) i m l t w = (i = 0 \<and> m = 0 \<and> l = 0 \<and> t = 0 \<and> w = 0 \<and> owes M p i m l t w)"
| "owes M (Go c p) i m l t w = (0 < l \<and> owes M c 0 0 1 0 1 \<and> owes M p i m (l - 1) t w)"
| "owes M (WgDone p) i m l t w = (0 < w \<and> owes M p i m l t (w - 1))"
| "owes M (WgWait p) i m l t w = (i = 0 \<and> m = 0 \<and> l = 0 \<and> t = 0 \<and> w = 0 \<and> owes M p i m l t w)"
| "owes M (BeginShutdown p) i m l t w = owes M p i m l t w"
| "owes M (Select k) i m l t w = (\<forall>b. owes M (k b) i m l t w)"
| "owes M (CtxErr c k) i m l t w = (\<forall>b. owes M (k b) i m l t w)"
| "owes M (Now k) i m l t w = (\<forall>x. owes M (k x) i m l t w)"
| "owes M (NameSuffix k) i m l t w = (\<forall>x. owes M (k x) i m l t w)"
| "owes M (TrackAdd r p) i m l t w = (0 < i \<and> owes M p (i - 1) m l t w)"
| "owes M (TrackRemove n p) i m l t w = owes M p i m l t w"
| "owes M (TrackGet n k) i m l t w = (\<forall>x. owes M (k x) i m l t w)"
| "owes M (TrackSize k) i m l t w = (\<forall>x. owes M (k x) i m l t w)"
| "owes M (TrackNames k) i m l t w = (\<forall>x. owes M (k x) i m l t w)"
| "owes M (TrackSnapshot k) i m l t w = (\<forall>x. owes M (k x) i m l t w)"
| "owes M (MarkIdle n x k) i m l t w = (\<forall>y. owes M (k y) i m l t w)"
| "owes M (MarkBusy n x k) i m l t w = (\<forall>y. owes M (k y) i m l t w)"
| "owes M (MarkForTermination n k) i m l t w = (\<forall>y. owes M (k y) i m l t w)"
| "owes M (AskTerminationPending n k) i m l t w = (\<forall>y. owes M (k y) i m l t w)"
| "owes M (Resolve c a k) i m l t w = (0 < t \<and> (\<forall>y. owes M (k y) i m l t w))"
| "owes M (GenerateJIT c n f k) i m l t w = (0 < t \<and> (\<forall>y. owes M (k y) i m l t w))"
| "owes M (RemoveRunner c j k) i m l t w = (\<forall>y. owes M (k y) i m l t w)"
| "owes M (IncusLaunch c q k) i m l t w = (0 < t \<and> (\<forall>y. owes M (k y) i m l t w))"
| "owes M (IncusStop c n k) i m l t w = (\<forall>y. owes M (k y) i m l t w)"
| "owes M (IncusDelete c n k) i m l t w = (\<forall>y. owes M (k y) i m l t w)"
| "owes M (IncusList c n k) i m l t w = (\<forall>y. owes M (k y) i m l t w)"
| "owes M (Metric x p) i m l t w = owes M p i m l t w"

section \<open>The program's goroutines\<close>

lemma owes_removeRunnerByID [simp]:
  "owes M k i m l t w \<Longrightarrow> owes M (removeRunnerByID c n k) i m l t w"
  by (simp add: removeRunnerByID_def)

lemma owes_removeRunnerBestEffort [simp]:
  "owes M k i m l t w \<Longrightarrow> owes M (removeRunnerBestEffort c ref k) i m l t w"
  by (simp add: removeRunnerBestEffort_def split: option.splits)

lemma owes_setTracked [simp]: "owes M (setTracked k) i m l t w = owes M k i m l t w"
  by (simp add: setTracked_def)

lemma owes_terminateInstance [simp]:
  "owes M k i m l t w \<Longrightarrow> owes M (terminateInstance c n k) i m l t w"
  by (simp add: terminateInstance_def Let_def split: option.splits)

lemma owes_launch [simp]:
  "owes M k i 0 0 t w \<Longrightarrow> 0 < t \<Longrightarrow> owes M (launch c req tr k) i 0 0 t w"
  by (simp add: launch_def split: sum.splits)

lemma owes_spawn_tail [simp]: "owes M (spawn_tail o1 n ci ref x) 1 1 0 1 0"
  by (simp add: spawn_tail_def Let_def)

lemma owes_spawn_mint [simp]: "owes M (spawn_mint o1 rel) 1 1 0 1 0"
  by (simp add: spawn_mint_def Let_def One_nat_def [symmetric] split: option.splits sum.splits
      del: One_nat_def)

lemma owes_spawnIdleRunner: "owes M (spawnIdleRunner o1) 1 0 0 1 0"
  by (simp add: spawnIdleRunner_def One_nat_def [symmetric] split: sum.splits del: One_nat_def)

lemma owes_spawn_loop: "owes M k 0 0 0 0 0 \<Longrightarrow> owes M (spawn_loop n k) n 0 0 0 0"
  by (induction n) auto

definition pool_limit :: "orch \<Rightarrow> int" where
  "pool_limit o1 = max 0 (ss_MaxRunners (o_spec o1))"

lemma clamp_target_limit: "clamp_target maxRunners n \<le> max 0 maxRunners" "0 \<le> clamp_target maxRunners n"
  by (simp_all add: clamp_target_def Let_def)

lemma owes_HandleDesired: "owes (pool_limit o1) (HandleDesiredRunnerCount o1 n) 0 0 0 0 0"
  using clamp_target_limit(1) by (simp add: HandleDesiredRunnerCount_def Let_def pool_limit_def owes_spawn_loop)

lemma owes_HandleJobStarted: "owes M (HandleJobStarted e) 0 0 0 0 0"
  by (simp add: HandleJobStarted_def split: option.splits)

lemma owes_HandleJobCompleted: "owes M (HandleJobCompleted e) 0 0 0 0 0"
  by (simp add: HandleJobCompleted_def split: option.splits)

lemma owes_parallelReap:
  assumes "\<forall>f \<in> set fs. \<forall>k. owes M k 0 0 1 0 1 \<longrightarrow> owes M (f k) 0 0 1 0 1"
    and "owes M k 0 0 0 0 0"
  shows "owes M (parallelReap c fs k) 0 0 0 0 0"
  using assms by (induction fs) auto

lemma owes_reapTracked: "owes M k i m l t w \<Longrightarrow> owes M (reapTracked o1 c r now k) i m l t w"
  by (simp add: reapTracked_def split: runnerState.splits)

lemma owes_driftSweep: "owes M k 0 0 0 0 0 \<Longrightarrow> owes M (driftSweep o1 c k) 0 0 0 0 0"
  by (auto simp: driftSweep_def Let_def intro!: owes_parallelReap split: sum.splits)

lemma owes_reapOnce: "owes M k 0 0 0 0 0 \<Longrightarrow> owes M (reapOnce o1 c k) 0 0 0 0 0"
  by (auto simp: reapOnce_def intro!: owes_parallelReap owes_reapTracked owes_driftSweep)

lemma owes_Run: "owes M (Run o1) 0 0 0 0 0"
  by (auto simp: Run_def run_shutdown_def intro: owes_reapOnce)

lemmas owes_entry = owes_HandleDesired owes_HandleJobStarted owes_HandleJobCompleted owes_Run

section \<open>A step keeps the accounts\<close>

text \<open>
  The accounts of a step: what \<open>p\<close> owed, plus what the step added to the counters, is what
  the rest of \<open>p\<close> and a started goroutine owe.
\<close>

definition balanced ::
  "int \<Rightarrow> shared \<Rightarrow> nat \<Rightarrow> nat \<Rightarrow> nat \<Rightarrow> nat \<Rightarrow> nat \<Rightarrow> shared \<Rightarrow> proc \<Rightarrow> proc list \<Rightarrow> bool" where
  "balanced M s i m l t w s' p' new \<longleftrightarrow>
     (\<exists>i' m' l' t' w' ni nl nt nw.
        owes M p' i' m' l' t' w'
        \<and> (new = [] \<and> ni = 0 \<and> nl = 0 \<and> nt = 0 \<and> nw = 0 \<or> (\<exists>q. new = [q] \<and> owes M q ni 0 nl nt nw))
        \<and> spawnInflight s' + int i = spawnInflight s + int i' + int ni
        \<and> inUse (mintLimiter s') + m = inUse (mintLimiter s) + m'
        \<and> inUse (launchLimiter s') + l = inUse (launchLimiter s) + l' + nl
        \<and> tasks s' + t = tasks s + t' + nt
        \<and> reapWg s' + w = reapWg s + w' + nw)"

lemma balanced_quiet:
  assumes "owes M p' i m l t w" "spawnInflight s' = spawnInflight s" "mintLimiter s' = mintLimiter s"
    "launchLimiter s' = launchLimiter s" "tasks s' = tasks s" "reapWg s' = reapWg s"
  shows "balanced M s i m l t w s' p' []"
  unfolding balanced_def using assms by (auto intro!: exI [of _ i] exI [of _ m] exI [of _ l] exI [of _ t] exI [of _ w])

lemma balanced_change:
  assumes "owes M p' i' m' l' t' w'" "spawnInflight s' + int i = spawnInflight s + int i'"
    "inUse (mintLimiter s') + m = inUse (mintLimiter s) + m'"
    "inUse (launchLimiter s') + l = inUse (launchLimiter s) + l'"
    "tasks s' + t = tasks s + t'" "reapWg s' + w = reapWg s + w'"
  shows "balanced M s i m l t w s' p' []"
  unfolding balanced_def
  by (rule exI [of _ i'], rule exI [of _ m'], rule exI [of _ l'], rule exI [of _ t'], rule exI [of _ w'],
      intro exI [of _ 0]) (use assms in simp)

lemma balanced_start:
  assumes "owes M p' i' m' l' t' w'" "owes M q ni 0 nl nt nw"
    "spawnInflight s' + int i = spawnInflight s + int i' + int ni"
    "inUse (mintLimiter s') + m = inUse (mintLimiter s) + m'"
    "inUse (launchLimiter s') + l = inUse (launchLimiter s) + l' + nl"
    "tasks s' + t = tasks s + t' + nt" "reapWg s' + w = reapWg s + w' + nw"
  shows "balanced M s i m l t w s' p' [q]"
  unfolding balanced_def
  by (rule exI [of _ i'], rule exI [of _ m'], rule exI [of _ l'], rule exI [of _ t'], rule exI [of _ w'],
      rule exI [of _ ni], rule exI [of _ nl], rule exI [of _ nt], rule exI [of _ nw]) (use assms in simp)

lemma step_balanced:
  assumes st: "step code r p s = Some (s', p', new)" and ow: "owes M p i m l t w"
    and sp: "owes M (spawn_body code) 1 0 0 1 0" "owes M (loop_head code) 0 0 0 0 0" and tw: "t \<le> tasks s" "w \<le> reapWg s" and cr: "\<not> crashed s'"
  shows "balanced M s i m l t w s' p' new"
proof (cases p)
  case (MintAcquire c k)
  with st ow show ?thesis
    by (auto simp: limiter_acquire_def split: reply.splits if_splits
        intro: balanced_quiet balanced_change [where m' = 1] balanced_change [where m' = 0])
next
  case (MintRelease q)
  with st ow show ?thesis
    by (auto simp: limiter_release_def split: if_splits intro: balanced_change)
next
  case (LaunchAcquire c k)
  with st ow show ?thesis
    by (auto simp: limiter_acquire_def split: reply.splits if_splits
        intro: balanced_quiet balanced_change [where l' = 1] balanced_change [where l' = 0])
next
  case (LaunchRelease q)
  with st ow show ?thesis
    by (auto simp: limiter_release_def split: if_splits intro: balanced_change)
next
  case (Reserve target k)
  with st ow show ?thesis
    by (auto simp: Let_def intro!: balanced_change)
next
  case (InflightDec q)
  with st ow show ?thesis by (auto intro!: balanced_change)
next
  case (StartSpawn k)
  with st ow sp show ?thesis
    by (auto split: if_splits intro: balanced_quiet intro!: balanced_start)
next
  case (TaskDone q)
  with st ow tw show ?thesis by (auto intro!: balanced_change)
next
  case (Go c q)
  with st ow tw show ?thesis by (auto intro!: balanced_start)
next
  case (WgDone q)
  with st ow tw show ?thesis by (auto intro!: balanced_change)
next
  case (TrackAdd x q)
  with st ow tw show ?thesis by (auto intro!: balanced_change)
qed (use st ow cr sp in \<open>auto simp: Let_def record_call_def split: if_splits reply.splits prod.splits
    intro!: balanced_quiet\<close>)

end
