(* ===== verification/Samples.thy ===== *)
theory Samples imports Orchestrator begin

text \<open>
  One concrete orchestrator the witnesses evaluate: a class of four-core VMs with room for
  two runners, and short schedules of its goroutines.
\<close>

section \<open>An orchestrator\<close>

definition sample_spec :: ScaleSetConfig where
  "sample_spec =
     \<lparr>ss_Name = ''incuse-4vcpu-8gb-20gb-amd64'', ss_RunnerGroup = ''Default'',
      ss_BaseLabels = [''linux''], ss_MaxRunners = 2,
      ss_Runner = \<lparr>spec_VCPUs = 4, spec_MemoryMB = 8192, spec_DiskGB = 20, spec_Arch = ''amd64''\<rparr>\<rparr>"

definition sample_incus :: IncusConfig where
  "sample_incus =
     \<lparr>URL = [], SocketPath = ''/s'', CertFile = [], KeyFile = [], ServerCertFile = [],
      InsecureSkipVerify = False, Project = ''incuse'', DefaultProfile = ''incuse-runner'',
      StoragePool = ''default'', RequestTimeout = 10 * minute\<rparr>"

definition sample_runner :: RunnerConfig where
  "sample_runner =
     \<lparr>ImageServer = [], ImageProtocol = [], ImageAlias = ''incuse-runner'', WorkFolder = ''_work'',
      RegistrationTimeout = 10 * minute, MaxJobDuration = 6 * hour, ReleaseCacheTTL = Some hour,
      MaxParallelMints = 4, MaxParallelLaunches = 2, InstanceType = ''vm'', Privileged = False,
      UseBakedImage = True\<rparr>"

definition sample_cfg :: orchConfig where
  "sample_cfg =
     \<lparr>hasIncusClient = True, scaleSet = Some sample_spec, hasReleaseResolver = True,
      hasLogger = True, cfg_IncusCfg = sample_incus, cfg_RunnerCfg = sample_runner,
      cfg_MintLimiter = None, cfg_LaunchLimiter = None, ReapInterval = 0\<rparr>"

definition sample_orch :: orch where
  "sample_orch =
     \<lparr>o_lower = id, o_spec = sample_spec, o_scaleSetID = 7, o_incusCfg = sample_incus,
      o_runnerCfg = sample_runner, o_reapInterval = 30 * second\<rparr>"

definition sample_shared_with :: "string set \<Rightarrow> shared" where
  "sample_shared_with old = init_shared \<lparr>chan = 0, capacity = 4, inUse = 0\<rparr> \<lparr>chan = 1, capacity = 2, inUse = 0\<rparr> old"

definition sample_shared :: shared where
  "sample_shared = init_shared \<lparr>chan = 0, capacity = 4, inUse = 0\<rparr> \<lparr>chan = 1, capacity = 2, inUse = 0\<rparr> {}"

lemmas sample_defs = sample_spec_def sample_incus_def sample_runner_def sample_cfg_def
  sample_orch_def sample_shared_def

lemma sample_New_with: "New id 0 7 old sample_cfg = Inr (sample_orch, sample_shared_with old)"
  by (simp add: New_def check_new_def sample_defs sample_shared_with_def NewLimiter_def ArchAMD64_def
      second_def minute_def hour_def)

lemma sample_New: "New id 0 7 {} sample_cfg = Inr (sample_orch, sample_shared)"
  by (simp add: New_def check_new_def sample_defs NewLimiter_def ArchAMD64_def second_def
      minute_def hour_def)

section \<open>Schedules\<close>

text \<open>
  Thread 0 is Run. The listener asks for five runners; thread 1 clamps the request, reserves
  two and starts two spawns, of which the first (thread 2) gets a mint permit, a name, a
  registration and is tracked.
\<close>

definition spawn_schedule :: "label list" where
  "spawn_schedule =
     [Desired 5, Thread 1 NoReply, Thread 1 NoReply, Thread 1 NoReply,
      Thread 2 (Choice True), Thread 2 (Suffix ''0a1b2c3d''),
      Thread 2 (JITReply (Inr (''jit'', Some 11))), Thread 2 (Clock 1000), Thread 2 NoReply]"

lemmas [run_simps] = init_sys_def sample_shared_def init_shared_def HandleDesiredRunnerCount_def clamp_target_def
  Let_def newInstanceTracker_def tracker_size_def spawnIdleRunner_def spawn_mint_def spawn_tail_def tracker_add_def
  setTracked_def launch_def terminationPending_def markIdle_def idle_entry_def limiter_acquire_def
  limiter_release_def record_call_def eval_nat_numeral

text \<open>Evaluation stops at a waiting goroutine: what follows its next operation is not unfolded.\<close>

lemma wait_congs:
  "MintAcquire c k = MintAcquire c k" "StartSpawn ks = StartSpawn ks" "NameSuffix kn = NameSuffix kn"
  "GenerateJIT c n f kj = GenerateJIT c n f kj" "Now kt = Now kt" "TrackAdd r p = TrackAdd r p"
  "Reserve t kr = Reserve t kr"
  by (rule refl)+

lemma spawn_name: "makeRunnerName id ''incuse-4vcpu-8gb-20gb-amd64'' ''0a1b2c3d''
    = Some ''incuse-4vcpu-8gb-20gb-amd64-0a1b2c3d''"
  by code_simp

lemma spawn_render: "is_ok (Render (cloud_init_spec sample_orch zero3 ''jit'' ''incuse-4vcpu-8gb-20gb-amd64-0a1b2c3d''))"
  by (simp add: Render_def cloud_init_spec_def validate_cloudinit_def sample_defs zero3_def is_ok_def
      release_of_def)

lemma spawn_run:
  "\<exists>y. sys_run sample_orch spawn_schedule (init_sys sample_orch sample_shared) = Some y
     \<and> tracker_size (s_tracker (shared y)) = 1 \<and> spawnInflight (shared y) = 1 \<and> length (threads y) = 4"
proof -
  obtain ci where ci: "Render (cloud_init_spec sample_orch zero3 ''jit'' ''incuse-4vcpu-8gb-20gb-amd64-0a1b2c3d'') = Inr ci"
    using spawn_render by (auto simp: is_ok_def split: sum.splits)
  have u: "UseBakedImage (o_runnerCfg sample_orch)" "ss_Name (o_spec sample_orch) = ''incuse-4vcpu-8gb-20gb-amd64''"
    "o_lower sample_orch = id" "ss_MaxRunners (o_spec sample_orch) = 2"
    by (simp_all add: sample_defs)
  show ?thesis
    unfolding spawn_schedule_def
    by (simp add: run_simps u spawn_name ci  cong: wait_congs)
qed

lemma spawn_reachable:
  obtains y where "reachable sample_orch any_env sample_shared y"
    "tracker_size (s_tracker (shared y)) = 1" "spawnInflight (shared y) = 1"
  using spawn_run sys_run_reachable [OF reachable.reach_init] by blast

lemma run_within_all:
  "(\<And>l y. l \<in> set ls \<Longrightarrow> A l y) \<Longrightarrow> run_within o1 A ls y = sys_run o1 ls y"
  by (induction ls arbitrary: y) (auto split: option.splits)

lemma spawn_run_within:
  assumes "\<And>l y. l \<in> set spawn_schedule \<Longrightarrow> A l y"
  shows "\<exists>y. run_within sample_orch A spawn_schedule (init_sys sample_orch sample_shared) = Some y
     \<and> length (threads y) = 4"
  using spawn_run by (auto simp: run_within_all [OF assms])

theorem New_accepts_iff_witness:
  "is_ok (New id 0 7 {} sample_cfg) \<and> \<not> is_ok (New id 0 7 {} (sample_cfg\<lparr>hasReleaseResolver := False\<rparr>))"
  using New_accepts_iff [of id 0 7 "{}" sample_cfg]
    New_accepts_iff [of id 0 7 "{}" "sample_cfg\<lparr>hasReleaseResolver := False\<rparr>"]
  by (simp add: sample_defs ArchAMD64_def minute_def second_def hour_def)

end
