(* ===== verification/Orchestrator_Pool.thy ===== *)
theory Orchestrator_Pool imports Orchestrator_Resources Samples begin

text \<open>
  The pool in every reachable state: the counters of the shared state are the sums of what
  the goroutines owe, so no reservation or permit is lost or returned twice, the pool never
  outgrows the configured maximum, and a goroutine is never blocked for good.
\<close>

section \<open>Accounts of the whole system\<close>

record account =
  reservations :: nat
  mints :: nat
  launches :: nat
  taskDebts :: nat
  wgDebts :: nat

definition pays :: "int \<Rightarrow> proc \<Rightarrow> account \<Rightarrow> bool" where
  "pays M p a = owes M p (reservations a) (mints a) (launches a) (taskDebts a) (wgDebts a)"

definition total :: "(account \<Rightarrow> nat) \<Rightarrow> account list \<Rightarrow> nat" where
  "total f as = sum_list (map f as)"

lemma total_simps [simp]:
  "total f [] = 0" "total f (a # as) = f a + total f as" "total f (as @ bs) = total f as + total f bs"
  by (simp_all add: total_def)

lemma total_update: "i < length as \<Longrightarrow> total f (as[i := a]) + f (as ! i) = total f as + f a"
  by (simp add: total_def sum_list_update_nat)

lemma total_member: "i < length as \<Longrightarrow> f (as ! i) \<le> total f as"
  using total_update [of i as f "as ! i"] member_le_sum_list [of "f (as ! i)" "map f as"]
  by (simp add: total_def)

lemma total_pos: "0 < total f as \<Longrightarrow> \<exists>i < length as. 0 < f (as ! i)"
proof (induction as)
  case (Cons b as)
  then show ?case by (cases "0 < f b") force+
qed simp

text \<open>The books balance: an account per goroutine, and each counter is a sum of accounts.\<close>

definition balances :: "shared \<Rightarrow> account list \<Rightarrow> bool" where
  "balances s as \<longleftrightarrow>
     spawnInflight s = int (total reservations as)
     \<and> inUse (mintLimiter s) = total mints as + othersMint s
     \<and> inUse (launchLimiter s) = total launches as + othersLaunch s
     \<and> tasks s = total taskDebts as
     \<and> reapWg s = total wgDebts as"

definition books :: "int \<Rightarrow> sys \<Rightarrow> bool" where
  "books M y \<longleftrightarrow> (\<exists>as. list_all2 (pays M) (threads y) as \<and> balances (shared y) as)"

text \<open>The bounds every state keeps, crashed or not.\<close>

definition within_bounds :: "int \<Rightarrow> shared \<Rightarrow> bool" where
  "within_bounds M s \<longleftrightarrow>
     tracker_inv (s_tracker s)
     \<and> int (tracker_size (s_tracker s)) + spawnInflight s \<le> M
     \<and> inUse (mintLimiter s) \<le> capacity (mintLimiter s)
     \<and> inUse (launchLimiter s) \<le> capacity (launchLimiter s)"

definition pool_inv :: "int \<Rightarrow> sys \<Rightarrow> bool" where
  "pool_inv M y \<longleftrightarrow> within_bounds M (shared y) \<and> (crashed (shared y) \<or> books M y)"

section \<open>Preservation\<close>

lemma step_others:
  "step code r p s = Some (s', p', new) \<Longrightarrow> othersMint s' = othersMint s \<and> othersLaunch s' = othersLaunch s"
  by (cases p) (auto simp: Let_def record_call_def split: if_splits reply.splits prod.splits)

lemma books_add: "books M y \<Longrightarrow> owes M p 0 0 0 0 0 \<Longrightarrow> books M (y\<lparr>threads := threads y @ [p]\<rparr>)"
proof -
  assume "books M y" and p: "owes M p 0 0 0 0 0"
  then obtain as where as: "list_all2 (pays M) (threads y) as" "balances (shared y) as"
    by (auto simp: books_def)
  let ?a = "\<lparr>reservations = 0, mints = 0, launches = 0, taskDebts = 0, wgDebts = 0\<rparr>"
  have "list_all2 (pays M) (threads y @ [p]) (as @ [?a])"
    using as(1) p by (auto simp: pays_def intro!: list_all2_appendI)
  moreover have "balances (shared y) (as @ [?a])" using as(2) by (simp add: balances_def)
  ultimately show ?thesis by (auto simp: books_def)
qed

lemma books_thread:
  assumes b: "books M \<lparr>shared = s, threads = ts\<rparr>" and i: "i < length ts"
    and st: "step code r (ts ! i) s = Some (s', p', new)" and sp: "owes M (spawn_body code) 1 0 0 1 0" "owes M (loop_head code) 0 0 0 0 0"
    and cr: "\<not> crashed s'"
  shows "books M \<lparr>shared = s', threads = ts[i := p'] @ new\<rparr>"
proof -
  obtain as where as: "list_all2 (pays M) ts as" "balances s as" using b by (auto simp: books_def)
  let ?a = "as ! i"
  have la: "length as = length ts" using as(1) by (simp add: list_all2_lengthD)
  have ow: "owes M (ts ! i) (reservations ?a) (mints ?a) (launches ?a) (taskDebts ?a) (wgDebts ?a)"
    using list_all2_nthD [OF as(1) i] by (simp add: pays_def)
  have le: "taskDebts ?a \<le> tasks s" "wgDebts ?a \<le> reapWg s"
    using as(2) i la by (simp_all add: balances_def total_member)
  from step_balanced [OF st ow sp le cr] obtain i' m' l' t' w' ni nl nt nw where
    ow': "owes M p' i' m' l' t' w'" and
    new: "new = [] \<and> ni = 0 \<and> nl = 0 \<and> nt = 0 \<and> nw = 0 \<or> (\<exists>q. new = [q] \<and> owes M q ni 0 nl nt nw)" and
    eq: "spawnInflight s' + int (reservations ?a) = spawnInflight s + int i' + int ni"
        "inUse (mintLimiter s') + mints ?a = inUse (mintLimiter s) + m'"
        "inUse (launchLimiter s') + launches ?a = inUse (launchLimiter s) + l' + nl"
        "tasks s' + taskDebts ?a = tasks s + t' + nt"
        "reapWg s' + wgDebts ?a = reapWg s + w' + nw"
    unfolding balanced_def by blast
  let ?a' = "\<lparr>reservations = i', mints = m', launches = l', taskDebts = t', wgDebts = w'\<rparr>"
  let ?n = "\<lparr>reservations = ni, mints = 0, launches = nl, taskDebts = nt, wgDebts = nw\<rparr>"
  define bs where "bs = as[i := ?a'] @ (if new = [] then [] else [?n])"
  have "list_all2 (pays M) (ts[i := p'] @ new) bs"
    using new ow' as(1) unfolding bs_def
    by (auto simp: pays_def intro!: list_all2_appendI list_all2_update_cong)
  moreover have "total f bs + f ?a = total f as + f ?a' + (if new = [] then 0 else f ?n)" for f
    using total_update [of i as f ?a'] i la by (simp add: bs_def)
  from this [of reservations] this [of mints] this [of launches] this [of taskDebts] this [of wgDebts]
  have "balances s' bs"
    using eq new as(2) step_others [OF st] by (auto simp: balances_def)
  ultimately show ?thesis by (auto simp: books_def)
qed

lemma step_within_bounds:
  assumes "step code r p s = Some (s', p', new)" "owes M p i m l t w" "within_bounds M s"
  shows "within_bounds M s'"
proof -
  have inv: "tracker_inv (s_tracker s)" using assms(3) by (simp add: within_bounds_def)
  note facts = tracker.inv_add [OF inv] tracker.inv_remove [OF inv] tracker.inv_modify [OF inv]
    tracker.count_modify(1) [OF inv] limiter.acq_bound limiter.rel_bound
  show ?thesis
  proof (cases p)
    case (TrackAdd x q)
    with assms tracker.count_bounds(1) [OF inv, of x] show ?thesis
      by (auto simp: within_bounds_def intro: facts)
  next
    case (TrackRemove n q)
    with assms tracker.count_bounds(2) [OF inv, of n] show ?thesis
      by (auto simp: within_bounds_def intro: facts)
  next
    case (MarkIdle n x k)
    with assms show ?thesis
      by (auto simp: within_bounds_def markIdle_def idle_entry_def facts split: prod.splits option.splits)
  next
    case (MarkBusy n x k)
    with assms show ?thesis
      by (auto simp: within_bounds_def markBusy_def busy_entry_def facts split: prod.splits option.splits)
  next
    case (MarkForTermination n k)
    with assms show ?thesis
      by (auto simp: within_bounds_def markForTermination_def pending_entry_def facts
          split: prod.splits option.splits)
  next
    case (Reserve target k)
    with assms show ?thesis by (auto simp: within_bounds_def Let_def)
  qed (use assms in \<open>auto simp: within_bounds_def record_call_def
      split: if_splits reply.splits intro: facts\<close>)
qed

lemma pool_inv_thread:
  assumes "pool_inv M y" "i < length (threads y)" "\<not> crashed (shared y)"
    and st: "step code r (threads y ! i) (shared y) = Some (s', p', new)" and sp: "owes M (spawn_body code) 1 0 0 1 0" "owes M (loop_head code) 0 0 0 0 0"
  shows "pool_inv M \<lparr>shared = s', threads = (threads y)[i := p'] @ new\<rparr>"
proof -
  have b: "books M \<lparr>shared = shared y, threads = threads y\<rparr>" and w: "within_bounds M (shared y)"
    using assms(1,3) by (simp_all add: pool_inv_def books_def)
  then obtain as where "list_all2 (pays M) (threads y) as" by (auto simp: books_def)
  then have "within_bounds M s'"
    using list_all2_nthD [OF _ assms(2)] step_within_bounds [OF st _ w] by (fastforce simp: pays_def)
  moreover have "crashed s' \<or> books M \<lparr>shared = s', threads = (threads y)[i := p'] @ new\<rparr>"
    using books_thread [OF b assms(2) st sp] by blast
  ultimately show ?thesis by (simp add: pool_inv_def)
qed

lemma pool_inv_entry:
  "pool_inv M y \<Longrightarrow> owes M p 0 0 0 0 0 \<Longrightarrow> pool_inv M (y\<lparr>threads := threads y @ [p]\<rparr>)"
  by (auto simp: pool_inv_def books_add)

lemma books_shared:
  assumes "pool_inv M y" "within_bounds M s'" "crashed s' = crashed (shared y)"
    and "\<And>as. balances (shared y) as \<Longrightarrow> balances s' as"
  shows "pool_inv M (y\<lparr>shared := s'\<rparr>)"
  using assms by (auto simp: pool_inv_def books_def)

lemma pool_inv_step:
  assumes "sys_step o1 l y = Some y'" "pool_inv (pool_limit o1) y"
  shows "pool_inv (pool_limit o1) y'"
proof (cases l)
  case (Thread i r)
  with assms pool_inv_thread [OF assms(2), where code = "program o1"] owes_spawnIdleRunner owes_Run show ?thesis
    by (auto split: if_splits)
next
  case (OthersMint b)
  with assms show ?thesis
    by (auto simp: Let_def limiter_acquire_def limiter_release_def split: if_splits
        intro!: books_shared simp: pool_inv_def [of _ y] within_bounds_def balances_def)
next
  case (OthersLaunch b)
  with assms show ?thesis
    by (auto simp: Let_def limiter_acquire_def limiter_release_def split: if_splits
        intro!: books_shared simp: pool_inv_def [of _ y] within_bounds_def balances_def)
next
  case CancelCaller
  with assms show ?thesis
    by (auto intro!: books_shared simp: pool_inv_def [of _ y] within_bounds_def balances_def)
qed (use assms in \<open>auto intro!: pool_inv_entry owes_entry\<close>)

lemma pool_inv_init:
  assumes "inUse ml \<le> capacity ml" "inUse ll \<le> capacity ll"
  shows "pool_inv (pool_limit o1) (init_sys o1 (init_shared ml ll old))"
proof -
  let ?a = "\<lparr>reservations = 0, mints = 0, launches = 0, taskDebts = 0, wgDebts = 0\<rparr>"
  have "books (pool_limit o1) (init_sys o1 (init_shared ml ll old))"
    unfolding books_def
    by (rule exI [of _ "[?a]"])
      (simp add: init_sys_def init_shared_def pays_def balances_def owes_Run)
  then show ?thesis
    using assms by (simp add: pool_inv_def within_bounds_def init_sys_def init_shared_def
        tracker.inv_empty tracker.count_empty pool_limit_def)
qed

interpretation pool: system_invariant o1 A "init_shared ml ll old"
  "\<lambda>y. inUse ml \<le> capacity ml \<and> inUse ll \<le> capacity ll \<longrightarrow> pool_inv (pool_limit o1) y" for o1 A ml ll old
  by unfold_locales (blast intro: pool_inv_init pool_inv_step)+

lemma pool_inv_reachable:
  assumes "reachable o1 A (init_shared ml ll old) y" "inUse ml \<le> capacity ml" "inUse ll \<le> capacity ll"
  shows "pool_inv (pool_limit o1) y"
  using pool.holds [OF assms(1)] assms(2,3) by simp

text \<open>A limiter stays the channel it is, with the capacity it was made with.\<close>

definition same_limiter :: "Limiter \<Rightarrow> Limiter \<Rightarrow> bool" where
  "same_limiter l l' \<longleftrightarrow> chan l' = chan l \<and> capacity l' = capacity l"

lemma same_limiter_simps:
  "same_limiter l l" "limiter_acquire l = Some l' \<Longrightarrow> same_limiter l l'" "limiter_release l = Some l' \<Longrightarrow> same_limiter l l'"
  by (auto simp: same_limiter_def limiter_acquire_def limiter_release_def split: if_splits)

lemma step_same_limiter:
  "step code r p s = Some (s', p', new) \<Longrightarrow>
     same_limiter (mintLimiter s) (mintLimiter s') \<and> same_limiter (launchLimiter s) (launchLimiter s')"
  by (cases p) (auto simp: same_limiter_simps Let_def record_call_def split: if_splits reply.splits prod.splits)

lemma sys_step_same_limiter:
  "sys_step o1 l y = Some y' \<Longrightarrow> same_limiter (mintLimiter (shared y)) (mintLimiter (shared y'))
     \<and> same_limiter (launchLimiter (shared y)) (launchLimiter (shared y'))"
  by (cases l) (auto simp: same_limiter_simps step_same_limiter Let_def dest: step_same_limiter split: if_splits)

interpretation limiters: system_invariant o1 A s0
  "\<lambda>y. same_limiter (mintLimiter s0) (mintLimiter (shared y)) \<and> same_limiter (launchLimiter s0) (launchLimiter (shared y))"
  for o1 A s0
proof
  show "same_limiter (mintLimiter s0) (mintLimiter (shared (init_sys o1 s0)))
      \<and> same_limiter (launchLimiter s0) (launchLimiter (shared (init_sys o1 s0)))"
    by (simp add: init_sys_def same_limiter_simps)
qed (use sys_step_same_limiter in \<open>fastforce simp: same_limiter_def\<close>)

section \<open>From the constructor\<close>

text \<open>The limiters a class is given are in a state that acquisitions can lead to.\<close>

definition limiters_ok :: "orchConfig \<Rightarrow> bool" where
  "limiters_ok c \<longleftrightarrow>
     list_all (\<lambda>l. case l of None \<Rightarrow> True | Some l \<Rightarrow> inUse l \<le> capacity l \<and> 0 < capacity l)
       [cfg_MintLimiter c, cfg_LaunchLimiter c]"

lemma New_shape:
  assumes "New u addr sid old c = Inr (o1, s0)" "limiters_ok c"
  obtains ml ll where "s0 = init_shared ml ll old" "inUse ml \<le> capacity ml" "inUse ll \<le> capacity ll"
    "0 < capacity ml" "0 < capacity ll" "0 < ss_MaxRunners (o_spec o1)"
    "scaleSet c = Some (o_spec o1)" "check_new c = None"
proof -
  let ?ml = "case cfg_MintLimiter c of Some l \<Rightarrow> l | None \<Rightarrow> the (NewLimiter addr (MaxParallelMints (cfg_RunnerCfg c)))"
  let ?ll = "case cfg_LaunchLimiter c of Some l \<Rightarrow> l | None \<Rightarrow> the (NewLimiter (Suc addr) (MaxParallelLaunches (cfg_RunnerCfg c)))"
  have cn: "check_new c = None" using assms(1) by (cases "check_new c") (simp_all add: New_def)
  then have o1: "o_spec o1 = the (scaleSet c)" and s0: "s0 = init_shared ?ml ?ll old"
    using assms(1) by (auto simp: New_def Let_def)
  have pos: "0 < MaxParallelMints (cfg_RunnerCfg c)" "0 < MaxParallelLaunches (cfg_RunnerCfg c)"
    "scaleSet c \<noteq> None" "0 < ss_MaxRunners (the (scaleSet c))"
    using cn by (auto simp: check_new_None_iff)
  have m: "inUse ?ml \<le> capacity ?ml" "0 < capacity ?ml"
    using assms(2) pos(1) by (cases "cfg_MintLimiter c"; simp add: limiters_ok_def NewLimiter_def)+
  have l: "inUse ?ll \<le> capacity ?ll" "0 < capacity ?ll"
    using assms(2) pos(2) by (cases "cfg_LaunchLimiter c"; simp add: limiters_ok_def NewLimiter_def)+
  have "scaleSet c = Some (o_spec o1)" "0 < ss_MaxRunners (o_spec o1)" using o1 pos(3,4) by simp_all
  then show thesis using that [OF s0 m(1) l(1) m(2) l(2)] cn by blast
qed

lemma New_pool_inv:
  assumes "New u addr sid old c = Inr (o1, s0)" "limiters_ok c" "reachable o1 A s0 y"
  shows "pool_inv (ss_MaxRunners (o_spec o1)) y"
proof -
  from New_shape [OF assms(1,2)] obtain ml ll where
    "s0 = init_shared ml ll old" "inUse ml \<le> capacity ml" "inUse ll \<le> capacity ll"
    "0 < ss_MaxRunners (o_spec o1)" by blast
  with pool_inv_reachable [of o1 A ml ll old y] assms(3) show ?thesis
    by (simp add: pool_limit_def)
qed

text \<open>
  C1: however handlers, spawns, the reaper and the other classes interleave, the tracked
  runners and the open reservations together never exceed the MaxRunners of the class, while
  the process has not panicked the count of reservations is never negative, and the mint and
  the launch limiter never hold more permits than they were made with.
\<close>

theorem pool_never_exceeds_MaxRunners:
  assumes "New u addr sid old c = Inr (o1, s0)" "limiters_ok c" "reachable o1 A s0 y"
  shows "int (tracker_size (s_tracker (shared y))) + spawnInflight (shared y) \<le> ss_MaxRunners (o_spec o1)
         \<and> (crashed (shared y) \<or> 0 \<le> spawnInflight (shared y))
         \<and> inUse (mintLimiter (shared y)) \<le> capacity (mintLimiter s0)
         \<and> inUse (launchLimiter (shared y)) \<le> capacity (launchLimiter s0)"
  using New_pool_inv [OF assms] limiters.holds [OF assms(3)]
  by (auto simp: pool_inv_def within_bounds_def books_def balances_def same_limiter_def)

text \<open>The full pool of the sample class: one runner tracked, one reservation open, room for two.\<close>

theorem pool_never_exceeds_MaxRunners_witness:
  "\<exists>y. reachable sample_orch any_env sample_shared y \<and> tracker_size (s_tracker (shared y)) = 1
     \<and> spawnInflight (shared y) = 1 \<and> int (tracker_size (s_tracker (shared y))) + spawnInflight (shared y) \<le> 2"
proof -
  obtain y where y: "reachable sample_orch any_env sample_shared y"
    "tracker_size (s_tracker (shared y)) = 1" "spawnInflight (shared y) = 1" by (rule spawn_reachable)
  have "limiters_ok sample_cfg" by (simp add: limiters_ok_def sample_cfg_def)
  from pool_never_exceeds_MaxRunners [OF sample_New this y(1)] y show ?thesis
    by (auto simp: sample_orch_def sample_spec_def)
qed

section \<open>Quiescence\<close>

fun returned :: "proc \<Rightarrow> bool" where
  "returned (Return v) = True"
| "returned _ = False"

lemma returned_pays: "list_all2 (pays M) ts as \<Longrightarrow> list_all returned ts \<Longrightarrow>
   total reservations as = 0 \<and> total mints as = 0 \<and> total launches as = 0
   \<and> total taskDebts as = 0 \<and> total wgDebts as = 0"
proof (induction rule: list_all2_induct)
  case (Cons p ts a as)
  then show ?case by (cases p) (simp_all add: pays_def)
qed simp

lemma settled:
  assumes "pool_inv M y" "\<not> crashed (shared y)" "list_all returned (threads y)"
  shows "spawnInflight (shared y) = 0 \<and> tasks (shared y) = 0 \<and> reapWg (shared y) = 0
     \<and> inUse (mintLimiter (shared y)) = othersMint (shared y)
     \<and> inUse (launchLimiter (shared y)) = othersLaunch (shared y)"
proof -
  obtain as where "list_all2 (pays M) (threads y) as" "balances (shared y) as"
    using assms(1,2) by (auto simp: pool_inv_def books_def)
  with returned_pays [OF _ assms(3)] show ?thesis by (force simp: balances_def)
qed

lemmas returned_settled = settled [OF New_pool_inv]

text \<open>
  Once every goroutine has returned (and none panicked), nothing is leaked: no spawn
  reservation is open, both wait groups are at zero, and the only permits taken are those
  of the other classes.
\<close>

theorem nothing_leaked_at_quiescence:
  assumes "New u addr sid old c = Inr (o1, s0)" "limiters_ok c" "reachable o1 A s0 y"
    and "\<not> crashed (shared y)" and "list_all returned (threads y)"
  shows "spawnInflight (shared y) = 0 \<and> tasks (shared y) = 0 \<and> reapWg (shared y) = 0
     \<and> inUse (mintLimiter (shared y)) = othersMint (shared y)
     \<and> inUse (launchLimiter (shared y)) = othersLaunch (shared y)"
  by (rule returned_settled [OF assms])

text \<open>A handler that finds nothing to scale up, after Run was cancelled.\<close>

theorem nothing_leaked_at_quiescence_witness:
  "\<exists>y. reachable sample_orch any_env sample_shared y \<and> list_all returned (threads y)
     \<and> spawnInflight (shared y) = 0"
proof -
  let ?ls = "[Desired 0, Thread 1 NoReply, CancelCaller, Thread 0 (Choice False), Thread 0 NoReply, Thread 0 NoReply]"
  have ok: "limiters_ok sample_cfg" by (simp add: limiters_ok_def sample_cfg_def)
  obtain y where y: "sys_run sample_orch ?ls (init_sys sample_orch sample_shared) = Some y"
    "list_all returned (threads y)" "\<not> crashed (shared y)"
    by (simp add: init_sys_def Run_def HandleDesiredRunnerCount_def clamp_target_def Let_def run_shutdown_def
        sample_orch_def sample_spec_def sample_shared_def init_shared_def newInstanceTracker_def
        tracker_size_def eval_nat_numeral)
  have r: "reachable sample_orch any_env sample_shared y"
    using sys_run_reachable [OF reachable.reach_init y(1)] .
  from nothing_leaked_at_quiescence [OF sample_New ok r y(3,2)] y(2) r show ?thesis by blast
qed

section \<open>Progress\<close>

text \<open>
  A goroutine that is not done can take a step, with some answer of the environment, unless
  it waits for a permit that is not free or for a wait group.
\<close>

fun waits :: "shared \<Rightarrow> proc \<Rightarrow> bool" where
  "waits s (MintAcquire c k) = (capacity (mintLimiter s) \<le> inUse (mintLimiter s))"
| "waits s (LaunchAcquire c k) = (capacity (launchLimiter s) \<le> inUse (launchLimiter s))"
| "waits s (TasksWait p) = (0 < tasks s)"
| "waits s (WgWait p) = (0 < reapWg s)"
| "waits s p = returned p"

lemma step_enabled:
  assumes "\<not> waits s p" "owes M p i m l t w" "m \<le> inUse (mintLimiter s)" "l \<le> inUse (launchLimiter s)"
  shows "\<exists>r. step code r p s \<noteq> None"
proof (cases p)
  case (MintAcquire c k)
  with assms show ?thesis by (intro exI [of _ "Choice True"]) (simp add: limiter_acquire_def)
next
  case (LaunchAcquire c k)
  with assms show ?thesis by (intro exI [of _ "Choice True"]) (simp add: limiter_acquire_def)
next
  case (Select k)
  then show ?thesis by (intro exI [of _ "Choice True"]) simp
next
  case (Now k)
  then show ?thesis by (intro exI [of _ "Clock 0"]) simp
next
  case (NameSuffix k)
  then show ?thesis by (intro exI [of _ "Suffix []"]) simp
next
  case (TrackSnapshot k)
  then show ?thesis by (intro exI [of _ "Order (snapshot (s_tracker s))"]) simp
next
  case (Resolve c a k)
  then show ?thesis by (intro exI [of _ "ResolveReply (Inl [])"]) simp
next
  case (GenerateJIT c n f k)
  then show ?thesis by (intro exI [of _ "JITReply (Inl [])"]) simp
next
  case (IncusLaunch c q k)
  then show ?thesis by (intro exI [of _ "LaunchReply (Inl [])"]) simp
next
  case (IncusList c n k)
  then show ?thesis by (intro exI [of _ "ListReply (Inl [])"]) simp
qed (use assms in \<open>auto simp: limiter_release_def Let_def split: prod.splits intro: exI [of _ "ErrReply None"]\<close>)

lemma waits_no_permit: "waits s p \<Longrightarrow> owes M p i m l t w \<Longrightarrow> m = 0 \<and> l = 0"
  by (cases p) auto

lemma waits_no_debt:
  assumes "waits s p" "owes M p i m l t w"
    and "inUse (mintLimiter s) < capacity (mintLimiter s)"
    and "inUse (launchLimiter s) < capacity (launchLimiter s)"
  shows "t = 0 \<and> w = 0"
  using assms by (cases p) auto

lemma waits_done:
  assumes "waits s p" "tasks s = 0" "reapWg s = 0"
    and "inUse (mintLimiter s) < capacity (mintLimiter s)"
    and "inUse (launchLimiter s) < capacity (launchLimiter s)"
  shows "returned p"
  using assms by (cases p) auto

lemma total_zero: "(\<And>i. i < length as \<Longrightarrow> f (as ! i) = 0) \<Longrightarrow> total f as = 0"
  using total_pos [of f as] by fastforce

text \<open>
  When no goroutine can run, each of them waits, and the class holds no permit; if both
  limiters have one free, all have returned.
\<close>

lemma all_stuck:
  assumes inv: "pool_inv M y" and nc: "\<not> crashed (shared y)"
    and stuck: "\<nexists>i r. sys_step o1 (Thread i r) y \<noteq> None"
  shows "inUse (mintLimiter (shared y)) = othersMint (shared y)"
    and "inUse (launchLimiter (shared y)) = othersLaunch (shared y)"
    and "othersMint (shared y) < capacity (mintLimiter (shared y)) \<Longrightarrow>
      othersLaunch (shared y) < capacity (launchLimiter (shared y)) \<Longrightarrow> list_all returned (threads y)"
proof -
  let ?s = "shared y" and ?ts = "threads y"
  obtain as where as: "list_all2 (pays M) ?ts as" and b: "balances ?s as"
    using inv nc by (auto simp: pool_inv_def books_def)
  have len: "length as = length ?ts" using as by (simp add: list_all2_lengthD)
  have ow: "owes M (?ts ! i) (reservations (as ! i)) (mints (as ! i))
      (launches (as ! i)) (taskDebts (as ! i)) (wgDebts (as ! i))" if "i < length ?ts" for i
    using list_all2_nthD [OF as that] by (simp add: pays_def)
  have wait: "waits ?s (?ts ! i)" if "i < length ?ts" for i
  proof (rule ccontr)
    assume "\<not> waits ?s (?ts ! i)"
    moreover have "mints (as ! i) \<le> inUse (mintLimiter ?s)" "launches (as ! i) \<le> inUse (launchLimiter ?s)"
      using b that len by (simp_all add: balances_def total_member trans_le_add1)
    ultimately have "\<exists>r. step (program o1) r (?ts ! i) ?s \<noteq> None"
      using step_enabled [OF _ ow [OF that]] by blast
    then obtain r where "step (program o1) r (?ts ! i) ?s \<noteq> None" ..
    then have "sys_step o1 (Thread i r) y \<noteq> None" using that nc by auto
    with stuck show False by blast
  qed
  show held: "inUse (mintLimiter ?s) = othersMint ?s" "inUse (launchLimiter ?s) = othersLaunch ?s"
    using b waits_no_permit [OF wait ow] len by (simp_all add: balances_def total_zero)
  assume "othersMint ?s < capacity (mintLimiter ?s)" "othersLaunch ?s < capacity (launchLimiter ?s)"
  then have free: "inUse (mintLimiter ?s) < capacity (mintLimiter ?s)"
    "inUse (launchLimiter ?s) < capacity (launchLimiter ?s)" by (simp_all add: held)
  have "tasks ?s = 0" "reapWg ?s = 0"
    using b waits_no_debt [OF wait ow free] len by (simp_all add: balances_def total_zero)
  then show "list_all returned ?ts"
    using waits_done [OF wait _ _ free] by (auto simp: list_all_length)
qed

lemma some_goroutine_runs:
  assumes "New u addr sid old c = Inr (o1, s0)" "limiters_ok c" "reachable o1 A s0 y"
    and "\<not> crashed (shared y)"
    and "othersMint (shared y) < capacity (mintLimiter (shared y))"
      "othersLaunch (shared y) < capacity (launchLimiter (shared y))"
  shows "list_all returned (threads y) \<or> (\<exists>i r. sys_step o1 (Thread i r) y \<noteq> None)"
  using all_stuck(3) [OF New_pool_inv [OF assms(1-3)] assms(4) _ assms(5,6)] by blast

text \<open>
  No deadlock. In every reachable state, as long as the other classes leave a permit of
  each limiter to this one, some goroutine can run, or all of them have returned. (A spawn
  gives its mint permit back before it waits for a launch permit, and the reaper waits for
  its goroutines without holding one.)
\<close>

theorem no_deadlock:
  assumes "New u addr sid old c = Inr (o1, s0)" "limiters_ok c" "reachable o1 A s0 y"
    and "\<not> crashed (shared y)"
    and "othersMint (shared y) < capacity (mintLimiter (shared y))"
      "othersLaunch (shared y) < capacity (launchLimiter (shared y))"
  shows "list_all returned (threads y) \<or> (\<exists>i r. sys_step o1 (Thread i r) y \<noteq> None)"
  by (rule some_goroutine_runs [OF assms])

theorem no_deadlock_witness:
  "\<exists>y i r. reachable sample_orch any_env sample_shared y \<and> sys_step sample_orch (Thread i r) y \<noteq> None"
proof -
  let ?y = "init_sys sample_orch sample_shared"
  have ok: "limiters_ok sample_cfg" by (simp add: limiters_ok_def sample_cfg_def)
  have r: "reachable sample_orch any_env sample_shared ?y" by (rule reachable.reach_init)
  have "list_all returned (threads ?y) \<or> (\<exists>i r. sys_step sample_orch (Thread i r) ?y \<noteq> None)"
    by (rule no_deadlock [OF sample_New ok r]) (simp_all add: init_sys_def sample_shared_def init_shared_def)
  moreover have "\<not> list_all returned (threads ?y)" by (simp add: init_sys_def Run_def)
  ultimately show ?thesis using r by blast
qed

end
