(* ===== verification/Orchestrator_Shutdown.thy ===== *)
theory Orchestrator_Shutdown imports Orchestrator_Pool begin

text \<open>
  The shutdown of Run: it returns only after no spawn can start and every spawn has ended,
  so no registration, launch or download starts afterwards.
\<close>

section \<open>The phases of Run\<close>

text \<open>
  \<open>drains ph p\<close>: \<open>p\<close> returns only in phase 2. Phase 1 begins with the shutdown flag (set
  under taskMu, together with the cancellation of the lifecycle), phase 2 with the end of
  the wait for the lifecycle tasks, which only a goroutine in phase 1 may begin.
\<close>

primrec drains :: "nat \<Rightarrow> proc \<Rightarrow> bool" where
  "drains ph (Return v) = (ph = 2)"
| "drains ph Again = (ph = 0)"
| "drains ph Crash = (True)"
| "drains ph (MintAcquire c k) = ((\<forall>x. drains ph (k x)))"
| "drains ph (MintRelease p) = (drains ph p)"
| "drains ph (LaunchAcquire c k) = ((\<forall>x. drains ph (k x)))"
| "drains ph (LaunchRelease p) = (drains ph p)"
| "drains ph (Reserve target k) = ((\<forall>x. drains ph (k x)))"
| "drains ph (InflightDec p) = (drains ph p)"
| "drains ph (StartSpawn k) = ((\<forall>x. drains ph (k x)))"
| "drains ph (TaskDone p) = (drains ph p)"
| "drains ph (TasksWait p) = (1 \<le> ph \<and> drains 2 p)"
| "drains ph (Go c p) = (drains ph p)"
| "drains ph (WgDone p) = (drains ph p)"
| "drains ph (WgWait p) = (drains ph p)"
| "drains ph (BeginShutdown p) = (drains (max 1 ph) p)"
| "drains ph (Select k) = ((\<forall>x. drains ph (k x)))"
| "drains ph (CtxErr c k) = ((\<forall>x. drains ph (k x)))"
| "drains ph (Now k) = ((\<forall>x. drains ph (k x)))"
| "drains ph (NameSuffix k) = ((\<forall>x. drains ph (k x)))"
| "drains ph (TrackAdd r p) = (drains ph p)"
| "drains ph (TrackRemove n p) = (drains ph p)"
| "drains ph (TrackGet n k) = ((\<forall>x. drains ph (k x)))"
| "drains ph (TrackSize k) = ((\<forall>x. drains ph (k x)))"
| "drains ph (TrackNames k) = ((\<forall>x. drains ph (k x)))"
| "drains ph (TrackSnapshot k) = ((\<forall>x. drains ph (k x)))"
| "drains ph (MarkIdle n t k) = ((\<forall>x. drains ph (k x)))"
| "drains ph (MarkBusy n t k) = ((\<forall>x. drains ph (k x)))"
| "drains ph (MarkForTermination n k) = ((\<forall>x. drains ph (k x)))"
| "drains ph (AskTerminationPending n k) = ((\<forall>x. drains ph (k x)))"
| "drains ph (Resolve c a k) = ((\<forall>x. drains ph (k x)))"
| "drains ph (GenerateJIT c n w k) = ((\<forall>x. drains ph (k x)))"
| "drains ph (RemoveRunner c j k) = ((\<forall>x. drains ph (k x)))"
| "drains ph (IncusLaunch c q k) = ((\<forall>x. drains ph (k x)))"
| "drains ph (IncusStop c n k) = ((\<forall>x. drains ph (k x)))"
| "drains ph (IncusDelete c n k) = ((\<forall>x. drains ph (k x)))"
| "drains ph (IncusList c n k) = ((\<forall>x. drains ph (k x)))"
| "drains ph (Metric m p) = (drains ph p)"

text \<open>What the phase says of the shared state.\<close>

definition phase_holds :: "nat \<Rightarrow> shared \<Rightarrow> bool" where
  "phase_holds ph s \<longleftrightarrow> (1 \<le> ph \<longrightarrow> shuttingDown s) \<and> (2 \<le> ph \<longrightarrow> tasks s = 0)"

lemma phase_stable:
  "step code r p s = Some (s', p', new) \<Longrightarrow> phase_holds ph s \<Longrightarrow> phase_holds ph s'"
  by (cases p) (auto simp: phase_holds_def Let_def record_call_def
      split: if_splits reply.splits prod.splits)

lemma phase_step:
  assumes "step code r p s = Some (s', p', new)" "drains ph p" "phase_holds ph s" "drains 0 (loop_head code)"
  shows "crashed s' \<or> (\<exists>ph'. drains ph' p' \<and> phase_holds ph' s')"
proof (cases p)
  case (BeginShutdown q)
  with assms show ?thesis by (intro disjI2 exI [of _ "max 1 ph"]) (auto simp: phase_holds_def)
next
  case (TasksWait q)
  with assms show ?thesis
    by (intro disjI2 exI [of _ 2]) (auto simp: phase_holds_def split: if_splits)
qed (use assms phase_stable [OF assms(1,3)] in \<open>auto simp: Let_def
    split: if_splits reply.splits prod.splits\<close>)

section \<open>Run drains\<close>

lemma drains_removeRunnerByID: "drains ph k \<Longrightarrow> drains ph (removeRunnerByID c n k)"
  by (simp add: removeRunnerByID_def)

lemma drains_parallelReap: "drains ph k \<Longrightarrow> drains ph (parallelReap c fs k)"
  by (induction fs) auto

lemma drains_reapOnce: "drains ph k \<Longrightarrow> drains ph (reapOnce o1 c k)"
  by (auto simp: reapOnce_def driftSweep_def Let_def intro!: drains_parallelReap split: sum.splits)

lemma drains_Run: "drains 0 (Run o1)"
  by (auto simp: Run_def run_shutdown_def intro: drains_reapOnce)

definition shutdown_inv :: "sys \<Rightarrow> bool" where
  "shutdown_inv y \<longleftrightarrow> crashed (shared y)
     \<or> (threads y \<noteq> [] \<and> (\<exists>ph. drains ph (threads y ! 0) \<and> phase_holds ph (shared y)))"

lemma shutdown_inv_thread:
  assumes inv: "shutdown_inv y" and i: "i < length (threads y)" "\<not> crashed (shared y)"
    and st: "step code r (threads y ! i) (shared y) = Some (s', p', new)" and head: "drains 0 (loop_head code)"
  shows "shutdown_inv \<lparr>shared = s', threads = (threads y)[i := p'] @ new\<rparr>"
proof -
  obtain ph where ph: "drains ph (threads y ! 0)" "phase_holds ph (shared y)" "threads y \<noteq> []"
    using inv i(2) by (auto simp: shutdown_inv_def)
  have "crashed s' \<or> (\<exists>ph. drains ph ((threads y)[i := p'] ! 0) \<and> phase_holds ph s')"
  proof (cases "i = 0")
    case True
    then show ?thesis using phase_step [OF st _ ph(2) head] ph i by simp
  next
    case False
    then show ?thesis using phase_stable [OF st ph(2)] ph(1) by auto
  qed
  then show ?thesis using ph(3) by (auto simp: shutdown_inv_def nth_append)
qed

lemma shutdown_inv_step:
  assumes "sys_step o1 l y = Some y'" "shutdown_inv y"
  shows "shutdown_inv y'"
proof (cases l)
  case (Thread i r)
  with assms shutdown_inv_thread [OF assms(2), where code = "program o1"] drains_Run show ?thesis by (auto split: if_splits)
qed (use assms in \<open>auto simp: shutdown_inv_def phase_holds_def nth_append Let_def split: if_splits\<close>)

interpretation shutdown: system_invariant o1 A s0 shutdown_inv for o1 A s0
proof
  show "shutdown_inv (init_sys o1 s0)" for n
    using drains_Run [of o1] by (auto simp: shutdown_inv_def init_sys_def phase_holds_def)
qed (rule shutdown_inv_step)

lemmas shutdown_inv_reachable = shutdown.holds

section \<open>After Run has returned\<close>

text \<open>The operations by which a spawn reaches GitHub, the release server or Incus.\<close>

fun spawn_call :: "proc \<Rightarrow> bool" where
  "spawn_call (Resolve c a k) = True"
| "spawn_call (GenerateJIT c n w k) = True"
| "spawn_call (IncusLaunch c q k) = True"
| "spawn_call _ = False"

lemma spawn_call_owes: "spawn_call p \<Longrightarrow> owes M p i m l t w \<Longrightarrow> 0 < t"
  by (cases p) auto

text \<open>
  C15: when Run has returned (and nothing panicked) the shutdown flag is set, no lifecycle
  task is running, and no goroutine is about to resolve a release, register a runner or
  launch an instance; since this holds in every later state too, nothing is minted or
  launched after the end of Run.
\<close>

theorem nothing_spawns_after_Run:
  assumes "New u addr sid old c = Inr (o1, s0)" "limiters_ok c" "reachable o1 A s0 y"
    and "returned (threads y ! 0)" and nc: "\<not> crashed (shared y)"
  shows "shuttingDown (shared y) \<and> tasks (shared y) = 0 \<and> list_all (\<lambda>p. \<not> spawn_call p) (threads y)"
proof -
  obtain ph where "drains ph (threads y ! 0)" "phase_holds ph (shared y)"
    using shutdown_inv_reachable [OF assms(3)] nc by (auto simp: shutdown_inv_def)
  moreover from this(1) assms(4) have "ph = 2" by (cases "threads y ! 0") auto
  ultimately have ended: "shuttingDown (shared y)" "tasks (shared y) = 0" by (auto simp: phase_holds_def)
  obtain as where as: "list_all2 (pays (ss_MaxRunners (o_spec o1))) (threads y) as" "balances (shared y) as"
    using New_pool_inv [OF assms(1-3)] nc by (auto simp: pool_inv_def books_def)
  have "\<not> spawn_call (threads y ! i)" if i: "i < length (threads y)" for i
  proof -
    have "taskDebts (as ! i) = 0"
      using total_member [of i as taskDebts] ended(2) as i
      by (simp add: balances_def list_all2_lengthD [OF as(1), symmetric])
    then show ?thesis
      using list_all2_nthD [OF as(1) i] spawn_call_owes by (fastforce simp: pays_def)
  qed
  with ended show ?thesis by (simp add: list_all_length)
qed

theorem nothing_spawns_after_Run_witness:
  "\<exists>y. reachable sample_orch any_env sample_shared y \<and> returned (threads y ! 0) \<and> shuttingDown (shared y)"
proof -
  let ?ls = "[CancelCaller, Thread 0 (Choice False), Thread 0 NoReply, Thread 0 NoReply]"
  have ok: "limiters_ok sample_cfg" by (simp add: limiters_ok_def sample_cfg_def)
  obtain y where y: "sys_run sample_orch ?ls (init_sys sample_orch sample_shared) = Some y"
    "returned (threads y ! 0)" "\<not> crashed (shared y)"
    by (simp add: init_sys_def Run_def run_shutdown_def sample_shared_def init_shared_def)
  have r: "reachable sample_orch any_env sample_shared y"
    using sys_run_reachable [OF reachable.reach_init y(1)] .
  from nothing_spawns_after_Run [OF sample_New ok r y(2,3)] y(2) r show ?thesis by blast
qed

end
