(* ===== verification/Orchestrator_Termination.thy ===== *)
theory Orchestrator_Termination imports Orchestrator_Shutdown begin

text \<open>
  Termination of the goroutines between two ticks. A goroutine moves to a part of what it had
  left; the exceptions are the spawn it may start, and the loop of Run it may go back to.
  But a spawn starts none itself, and the loop gets there again only by a tick. So with every
  other step the multiset of goroutines decreases, whatever the environment answers.
\<close>

section \<open>What a goroutine can become\<close>

text \<open>The parts of a goroutine one step leads to, unless the step takes a tick.\<close>

primrec rest_of :: "proc \<Rightarrow> proc set" where
  "rest_of (Return v) = {}"
| "rest_of Again = {}"
| "rest_of Crash = {Return NoValue}"
| "rest_of (MintAcquire c k) = range k"
| "rest_of (MintRelease p) = {p}"
| "rest_of (LaunchAcquire c k) = range k"
| "rest_of (LaunchRelease p) = {p}"
| "rest_of (Reserve target k) = range k"
| "rest_of (InflightDec p) = {p}"
| "rest_of (StartSpawn k) = range k"
| "rest_of (TaskDone p) = {p}"
| "rest_of (TasksWait p) = {p}"
| "rest_of (Go c p) = {c} \<union> {p}"
| "rest_of (WgDone p) = {p}"
| "rest_of (WgWait p) = {p}"
| "rest_of (BeginShutdown p) = {p}"
| "rest_of (Select k) = {k False}"
| "rest_of (CtxErr c k) = range k"
| "rest_of (Now k) = range k"
| "rest_of (NameSuffix k) = range k"
| "rest_of (TrackAdd r p) = {p}"
| "rest_of (TrackRemove n p) = {p}"
| "rest_of (TrackGet n k) = range k"
| "rest_of (TrackSize k) = range k"
| "rest_of (TrackNames k) = range k"
| "rest_of (TrackSnapshot k) = range k"
| "rest_of (MarkIdle n t k) = range k"
| "rest_of (MarkBusy n t k) = range k"
| "rest_of (MarkForTermination n k) = range k"
| "rest_of (AskTerminationPending n k) = range k"
| "rest_of (Resolve c a k) = range k"
| "rest_of (GenerateJIT c n w k) = range k"
| "rest_of (RemoveRunner c j k) = range k"
| "rest_of (IncusLaunch c q k) = range k"
| "rest_of (IncusStop c n k) = range k"
| "rest_of (IncusDelete c n k) = range k"
| "rest_of (IncusList c n k) = range k"
| "rest_of (Metric m p) = {p}"

text \<open>Without a tick the goroutine neither starts a spawn nor goes back to the loop.\<close>

primrec straight :: "proc \<Rightarrow> bool" where
  "straight (Return v) = (True)"
| "straight Again = False"
| "straight Crash = (True)"
| "straight (MintAcquire c k) = ((\<forall>x. straight (k x)))"
| "straight (MintRelease p) = (straight p)"
| "straight (LaunchAcquire c k) = ((\<forall>x. straight (k x)))"
| "straight (LaunchRelease p) = (straight p)"
| "straight (Reserve target k) = ((\<forall>x. straight (k x)))"
| "straight (InflightDec p) = (straight p)"
| "straight (StartSpawn k) = (False)"
| "straight (TaskDone p) = (straight p)"
| "straight (TasksWait p) = (straight p)"
| "straight (Go c p) = (straight c \<and> straight p)"
| "straight (WgDone p) = (straight p)"
| "straight (WgWait p) = (straight p)"
| "straight (BeginShutdown p) = (straight p)"
| "straight (Select k) = (straight (k False))"
| "straight (CtxErr c k) = ((\<forall>x. straight (k x)))"
| "straight (Now k) = ((\<forall>x. straight (k x)))"
| "straight (NameSuffix k) = ((\<forall>x. straight (k x)))"
| "straight (TrackAdd r p) = (straight p)"
| "straight (TrackRemove n p) = (straight p)"
| "straight (TrackGet n k) = ((\<forall>x. straight (k x)))"
| "straight (TrackSize k) = ((\<forall>x. straight (k x)))"
| "straight (TrackNames k) = ((\<forall>x. straight (k x)))"
| "straight (TrackSnapshot k) = ((\<forall>x. straight (k x)))"
| "straight (MarkIdle n t k) = ((\<forall>x. straight (k x)))"
| "straight (MarkBusy n t k) = ((\<forall>x. straight (k x)))"
| "straight (MarkForTermination n k) = ((\<forall>x. straight (k x)))"
| "straight (AskTerminationPending n k) = ((\<forall>x. straight (k x)))"
| "straight (Resolve c a k) = ((\<forall>x. straight (k x)))"
| "straight (GenerateJIT c n w k) = ((\<forall>x. straight (k x)))"
| "straight (RemoveRunner c j k) = ((\<forall>x. straight (k x)))"
| "straight (IncusLaunch c q k) = ((\<forall>x. straight (k x)))"
| "straight (IncusStop c n k) = ((\<forall>x. straight (k x)))"
| "straight (IncusDelete c n k) = ((\<forall>x. straight (k x)))"
| "straight (IncusList c n k) = ((\<forall>x. straight (k x)))"
| "straight (Metric m p) = (straight p)"

text \<open>The goroutines a goroutine can become or start in one step.\<close>

definition next_of :: "code \<Rightarrow> (proc \<times> proc) set" where
  "next_of code = {(q, p). q \<in> rest_of p \<or> (\<not> straight p \<and> q \<in> {spawn_body code, loop_head code})}"

lemma step_next:
  "step code r p s = Some (s', p', new) \<Longrightarrow> \<not> takes_tick r p \<Longrightarrow>
     (p', p) \<in> next_of code \<and> (\<forall>q \<in> set new. (q, p) \<in> next_of code)"
  by (cases p) (auto simp: next_of_def Let_def split: if_splits reply.splits prod.splits)

lemma next_acc:
  assumes "\<And>q. q \<in> rest_of p \<Longrightarrow> q \<in> Wellfounded.acc (next_of code)"
    and "straight p \<or> {spawn_body code, loop_head code} \<subseteq> Wellfounded.acc (next_of code)"
  shows "p \<in> Wellfounded.acc (next_of code)"
  by (rule accI) (use assms in \<open>auto simp: next_of_def\<close>)

lemma straight_rest: "straight p \<Longrightarrow> q \<in> rest_of p \<Longrightarrow> straight q"
  by (cases p) auto

lemma rest_induct:
  assumes "\<And>p. (\<And>q. q \<in> rest_of p \<Longrightarrow> P q) \<Longrightarrow> P p"
  shows "P p"
proof (induction p)
  case (Return v)
  show ?case by (rule assms) simp
next
  case Crash
  have "P (Return NoValue)" by (rule assms) simp
  then show ?case using assms [of Crash] by simp
qed (rule assms, auto)+

lemma straight_acc: "straight p \<Longrightarrow> p \<in> Wellfounded.acc (next_of code)"
proof (induction p rule: rest_induct)
  case (1 p)
  then show ?case using straight_rest by (metis next_acc)
qed

lemma wf_next:
  assumes "straight (spawn_body code)" "straight (loop_head code)"
  shows "wf (next_of code)"
proof (unfold wf_iff_acc, rule allI)
  fix p
  have "{spawn_body code, loop_head code} \<subseteq> Wellfounded.acc (next_of code)"
    using assms straight_acc by blast
  then show "p \<in> Wellfounded.acc (next_of code)"
    by (induction p rule: rest_induct) (metis next_acc)
qed

section \<open>Spawns and the loop of Run\<close>

lemma straight_remove [simp]:
  "straight (removeRunnerByID c i k) = straight k" "straight (removeRunnerBestEffort c ref k) = straight k"
  by (auto simp: removeRunnerByID_def removeRunnerBestEffort_def split: option.splits)

lemma straight_setTracked [simp]: "straight (setTracked k) = straight k"
  by (simp add: setTracked_def)

lemma straight_terminate [simp]: "straight k \<Longrightarrow> straight (terminateInstance c n k)"
  by (simp add: terminateInstance_def Let_def split: option.splits)

lemma straight_launch [simp]: "straight k \<Longrightarrow> straight (launch c req tr k)"
  by (simp add: launch_def split: sum.splits)

lemma straight_mint: "straight (spawn_mint o1 rel)"
  by (simp add: spawn_mint_def spawn_tail_def Let_def split: option.splits sum.splits)

lemma straight_spawn: "straight (spawnIdleRunner o1)"
  by (simp add: spawnIdleRunner_def straight_mint split: sum.splits)

lemma straight_Run: "straight (Run o1)"
  by (simp add: Run_def run_shutdown_def)

lemma wf_program: "wf (next_of (program o1))"
  by (rule wf_next) (simp_all add: straight_spawn straight_Run)

section \<open>The system\<close>

lemma thread_step_split:
  assumes "sys_step o1 (Thread i r) y = Some y'" "\<not> takes_tick r (threads y ! i)"
  obtains p ts new where "mset (threads y) = add_mset p ts" "mset (threads y') = ts + new"
    "\<forall>q \<in># new. (q, p) \<in> next_of (program o1)"
proof -
  obtain s p new where i: "i < length (threads y)"
    and st: "step (program o1) r (threads y ! i) (shared y) = Some (s, p, new)"
    and y': "threads y' = (threads y)[i := p] @ new"
    using assms(1) by (auto split: if_splits)
  let ?rest = "mset (threads y) - {#threads y ! i#}"
  have "mset (threads y) = add_mset (threads y ! i) ?rest" using i by (simp add: nth_mem)
  moreover have "mset (threads y') = ?rest + mset (p # new)" using i by (simp add: y' mset_update)
  ultimately show thesis by (rule that) (use step_next [OF st assms(2)] in auto)
qed

text \<open>One step of some goroutine other than a tick, whatever the environment answers.\<close>

definition thread_step :: "orch \<Rightarrow> (sys \<times> sys) set" where
  "thread_step o1 = {(y', y). \<exists>i r. \<not> takes_tick r (threads y ! i) \<and> sys_step o1 (Thread i r) y = Some y'}"

lemma thread_step_mset:
  assumes "(y', y) \<in> thread_step o1"
  shows "(mset (threads y'), mset (threads y)) \<in> mult (next_of (program o1))"
proof -
  obtain i r where "sys_step o1 (Thread i r) y = Some y'" "\<not> takes_tick r (threads y ! i)" using assms by (auto simp: thread_step_def)
  then obtain p ts new where "mset (threads y) = add_mset p ts" "mset (threads y') = ts + new"
    "\<forall>q \<in># new. (q, p) \<in> next_of (program o1)" by (rule thread_step_split)
  then show ?thesis unfolding mult_def by (intro r_into_trancl mult1I) auto
qed

lemma wf_thread_step: "wf (thread_step o1)"
proof (rule wf_subset)
  show "wf (inv_image (mult (next_of (program o1))) (\<lambda>y. mset (threads y)))"
    by (intro wf_inv_image wf_mult wf_program)
  show "thread_step o1 \<subseteq> inv_image (mult (next_of (program o1))) (\<lambda>y. mset (threads y))"
    by (auto simp: thread_step_mset)
qed

end
