(* ===== verification/Orchestrator_Panics.thy ===== *)
theory Orchestrator_Panics imports Orchestrator_Pool begin

text \<open>
  The only panic of the package is a slice expression of makeRunnerName. With the suffixes
  randomNameSuffix draws it cannot happen, whatever the scale set is called, so no goroutine
  of the system panics.
\<close>

text \<open>The shape of what randomNameSuffix returns.\<close>

definition drawn_suffix :: "string \<Rightarrow> bool" where
  "drawn_suffix x \<longleftrightarrow> length x = 8 \<and> list_all alnum_char x"

lemma randomNameSuffix_drawn: "drawn_suffix (randomNameSuffix rnd nanos)"
  by (simp add: drawn_suffix_def randomNameSuffix_facts)

lemma drawn_name: "drawn_suffix x \<Longrightarrow> makeRunnerName u n x \<noteq> None"
  by (auto simp: drawn_suffix_def makeRunnerName_eq Let_def sanitize_id alnum_dash_label)

primrec safe :: "proc \<Rightarrow> bool" where
  "safe (Return v) = (True)"
| "safe Again = True"
| "safe Crash = (False)"
| "safe (MintAcquire c k) = ((\<forall>x. safe (k x)))"
| "safe (MintRelease p) = (safe p)"
| "safe (LaunchAcquire c k) = ((\<forall>x. safe (k x)))"
| "safe (LaunchRelease p) = (safe p)"
| "safe (Reserve target k) = ((\<forall>x. safe (k x)))"
| "safe (InflightDec p) = (safe p)"
| "safe (StartSpawn k) = ((\<forall>x. safe (k x)))"
| "safe (TaskDone p) = (safe p)"
| "safe (TasksWait p) = (safe p)"
| "safe (Go c p) = (safe c \<and> safe p)"
| "safe (WgDone p) = (safe p)"
| "safe (WgWait p) = (safe p)"
| "safe (BeginShutdown p) = (safe p)"
| "safe (Select k) = ((\<forall>x. safe (k x)))"
| "safe (CtxErr c k) = ((\<forall>x. safe (k x)))"
| "safe (Now k) = ((\<forall>x. safe (k x)))"
| "safe (NameSuffix k) = (\<forall>x. drawn_suffix x \<longrightarrow> safe (k x))"
| "safe (TrackAdd r p) = (safe p)"
| "safe (TrackRemove n p) = (safe p)"
| "safe (TrackGet n k) = ((\<forall>x. safe (k x)))"
| "safe (TrackSize k) = ((\<forall>x. safe (k x)))"
| "safe (TrackNames k) = ((\<forall>x. safe (k x)))"
| "safe (TrackSnapshot k) = ((\<forall>x. safe (k x)))"
| "safe (MarkIdle n t k) = ((\<forall>x. safe (k x)))"
| "safe (MarkBusy n t k) = ((\<forall>x. safe (k x)))"
| "safe (MarkForTermination n k) = ((\<forall>x. safe (k x)))"
| "safe (AskTerminationPending n k) = ((\<forall>x. safe (k x)))"
| "safe (Resolve c a k) = ((\<forall>x. safe (k x)))"
| "safe (GenerateJIT c n w k) = ((\<forall>x. safe (k x)))"
| "safe (RemoveRunner c j k) = ((\<forall>x. safe (k x)))"
| "safe (IncusLaunch c q k) = ((\<forall>x. safe (k x)))"
| "safe (IncusStop c n k) = ((\<forall>x. safe (k x)))"
| "safe (IncusDelete c n k) = ((\<forall>x. safe (k x)))"
| "safe (IncusList c n k) = ((\<forall>x. safe (k x)))"
| "safe (Metric m p) = (safe p)"

lemma safe_removeRunnerByID [simp]: "safe k \<Longrightarrow> safe (removeRunnerByID c n k)"
  by (simp add: removeRunnerByID_def)

lemma safe_removeRunnerBestEffort [simp]: "safe k \<Longrightarrow> safe (removeRunnerBestEffort c ref k)"
  by (simp add: removeRunnerBestEffort_def split: option.splits)

lemma safe_setTracked [simp]: "safe (setTracked k) = safe k"
  by (simp add: setTracked_def)

lemma safe_terminateInstance [simp]: "safe k \<Longrightarrow> safe (terminateInstance c n k)"
  by (simp add: terminateInstance_def Let_def split: option.splits)

lemma safe_launch [simp]: "safe k \<Longrightarrow> safe (launch c req tr k)"
  by (simp add: launch_def split: sum.splits)

lemma safe_spawn_mint [simp]: "safe (spawn_mint o1 rel)"
  by (auto simp: spawn_mint_def spawn_tail_def Let_def drawn_name split: option.splits sum.splits)

lemma safe_spawnIdleRunner: "safe (spawnIdleRunner o1)"
  by (simp add: spawnIdleRunner_def split: sum.splits)

lemma safe_spawn_loop: "safe k \<Longrightarrow> safe (spawn_loop n k)"
  by (induction n) auto

lemma safe_parallelReap:
  "\<forall>f \<in> set fs. \<forall>k. safe k \<longrightarrow> safe (f k) \<Longrightarrow> safe k \<Longrightarrow> safe (parallelReap c fs k)"
  by (induction fs) auto

lemma safe_reapOnce: "safe k \<Longrightarrow> safe (reapOnce o1 c k)"
  by (auto simp: reapOnce_def reapTracked_def driftSweep_def Let_def intro!: safe_parallelReap
      split: runnerState.splits sum.splits)

lemma safe_Run: "safe (Run o1)"
  by (auto simp: Run_def run_shutdown_def intro: safe_reapOnce)

lemma safe_code: "safe (spawn_body (program o1)) \<and> safe (loop_head (program o1))"
  by (simp add: safe_spawnIdleRunner safe_Run)

lemma safe_handlers:
  "safe (HandleDesiredRunnerCount o1 n)" "safe (HandleJobStarted e)" "safe (HandleJobCompleted e)"
  by (simp_all add: HandleDesiredRunnerCount_def HandleJobStarted_def HandleJobCompleted_def Let_def
      safe_spawn_loop split: option.splits)

definition suffix_env :: "label \<Rightarrow> sys \<Rightarrow> bool" where
  "suffix_env l y = (case l of Thread i r \<Rightarrow> (case r of Suffix x \<Rightarrow> drawn_suffix x | _ \<Rightarrow> True) | _ \<Rightarrow> True)"

lemma step_safe:
  "step code r p s = Some (s', p', new) \<Longrightarrow> safe p \<Longrightarrow> safe (spawn_body code) \<and> safe (loop_head code) \<Longrightarrow>
     (\<forall>x. r = Suffix x \<longrightarrow> drawn_suffix x) \<Longrightarrow>
     safe p' \<and> list_all safe new \<and> crashed s' = crashed s"
  by (cases p) (auto simp: Let_def record_call_def split: if_splits reply.splits prod.splits)

lemma safe_step:
  assumes "sys_step o1 l y = Some y'" "list_all safe (threads y) \<and> \<not> crashed (shared y)" "suffix_env l y"
  shows "list_all safe (threads y') \<and> \<not> crashed (shared y')"
proof (cases l)
  case (Thread i r)
  with assms have i: "i < length (threads y)" by (auto split: if_splits)
  from assms(3) Thread have r: "\<forall>x. r = Suffix x \<longrightarrow> drawn_suffix x" by (auto simp: suffix_env_def)
  from assms(1) Thread i obtain s p new where
    st: "step (program o1) r (threads y ! i) (shared y) = Some (s, p, new)"
    and y': "y' = \<lparr>shared = s, threads = (threads y)[i := p] @ new\<rparr>" by (auto split: if_splits)
  have "safe (threads y ! i)" using assms(2) i by (simp add: list_all_length)
  from step_safe [OF st this safe_code r] assms(2) show ?thesis
    by (simp add: y' list_all_update)
qed (use assms in \<open>auto simp: safe_handlers Let_def split: if_splits\<close>)

interpretation unharmed: system_invariant o1 suffix_env s0
  "\<lambda>y. crashed s0 \<or> list_all safe (threads y) \<and> \<not> crashed (shared y)" for o1 s0
proof
  show "crashed s0 \<or> list_all safe (threads (init_sys o1 s0)) \<and> \<not> crashed (shared (init_sys o1 s0))" for n
    using safe_Run [of o1] by (simp add: init_sys_def)
  show "crashed s0 \<or> list_all safe (threads y') \<and> \<not> crashed (shared y')"
    if "crashed s0 \<or> list_all safe (threads y) \<and> \<not> crashed (shared y)" "suffix_env l y"
      "sys_step o1 l y = Some y'" for y l y'
    using that safe_step [of o1 l y y'] by blast
qed

lemma safe_reachable:
  assumes "\<not> crashed s0" "reachable o1 suffix_env s0 y"
  shows "list_all safe (threads y) \<and> \<not> crashed (shared y)"
  using unharmed.holds [OF assms(2)] assms(1) by simp

lemma reachable_safe:
  assumes "New u addr sid old c = Inr (o1, s0)" "reachable o1 suffix_env s0 y"
  shows "list_all safe (threads y) \<and> \<not> crashed (shared y)"
  by (rule safe_reachable [OF _ assms(2)])
    (use assms(1) in \<open>auto simp: New_def init_shared_def Let_def split: option.splits\<close>)

text \<open>
  What a goroutine gives back is there: a receive from the channel of a limiter finds a
  permit (with none it would block for ever), and a Done finds the counter of its wait group
  positive (at zero it would panic).
\<close>

fun gives_back :: "shared \<Rightarrow> proc \<Rightarrow> bool" where
  "gives_back s (MintRelease p) = (0 < inUse (mintLimiter s))"
| "gives_back s (LaunchRelease p) = (0 < inUse (launchLimiter s))"
| "gives_back s (TaskDone p) = (0 < tasks s)"
| "gives_back s (WgDone p) = (0 < reapWg s)"
| "gives_back s p = True"

lemma owes_gives_back:
  "owes M p i m l t w \<Longrightarrow> m \<le> inUse (mintLimiter s) \<Longrightarrow> l \<le> inUse (launchLimiter s) \<Longrightarrow> t \<le> tasks s \<Longrightarrow>
     w \<le> reapWg s \<Longrightarrow> gives_back s p"
  by (cases p) auto

lemma pool_gives_back:
  assumes "pool_inv M y" "\<not> crashed (shared y)"
  shows "list_all (gives_back (shared y)) (threads y)"
proof -
  obtain as where as: "list_all2 (pays M) (threads y) as" "balances (shared y) as"
    using assms by (auto simp: pool_inv_def books_def)
  have "gives_back (shared y) (threads y ! i)" if i: "i < length (threads y)" for i
  proof -
    have "i < length as" using i as(1) by (simp add: list_all2_lengthD)
    then show ?thesis using list_all2_nthD [OF as(1) i] as(2)
      by (auto simp: pays_def balances_def total_member trans_le_add1 intro!: owes_gives_back)
  qed
  then show ?thesis by (simp add: list_all_length)
qed



end
