(* ===== verification/Orchestrator_Quiescence.thy ===== *)
theory Orchestrator_Quiescence imports Orchestrator_Termination Orchestrator_Panics begin

text \<open>
  Progress and termination together: once the context of Run is done the goroutines of an
  orchestrator come to an end on every schedule, and when they have, nothing is held.
\<close>

section \<open>Schedules of the goroutines\<close>

text \<open>
  A step of some goroutine, with an answer \<open>A\<close> allows the environment to give; and the steps
  the goroutines do not decide on: a tick of the reaper, which the select of Run may take even
  when the context is done, a call of the listener, the cancellation.
\<close>

definition goroutine_step :: "orch \<Rightarrow> (label \<Rightarrow> sys \<Rightarrow> bool) \<Rightarrow> sys \<Rightarrow> sys \<Rightarrow> bool" where
  "goroutine_step o1 A y y' \<longleftrightarrow>
     (\<exists>i r. \<not> takes_tick r (threads y ! i) \<and> A (Thread i r) y \<and> sys_step o1 (Thread i r) y = Some y')"

fun event :: "label \<Rightarrow> sys \<Rightarrow> bool" where
  "event (Thread i r) y = takes_tick r (threads y ! i)"
| "event CancelCaller y = True"
| "event l y = handler l"

definition event_step :: "orch \<Rightarrow> (label \<Rightarrow> sys \<Rightarrow> bool) \<Rightarrow> sys \<Rightarrow> sys \<Rightarrow> bool" where
  "event_step o1 A y y' \<longleftrightarrow> (\<exists>l. event l y \<and> A l y \<and> sys_step o1 l y = Some y')"

lemma wf_goroutine_step: "wf {(y', y). goroutine_step o1 A y y'}"
  by (rule wf_subset [OF wf_thread_step [of o1]]) (unfold goroutine_step_def thread_step_def, blast)

section \<open>The invariant of a run\<close>

text \<open>The other classes leave a permit of each limiter.\<close>

definition leaves_permits :: "shared \<Rightarrow> bool" where
  "leaves_permits s \<longleftrightarrow> othersMint s < capacity (mintLimiter s) \<and> othersLaunch s < capacity (launchLimiter s)"

text \<open>What neither a goroutine nor an event takes back.\<close>

definition closing :: "sys \<Rightarrow> bool" where
  "closing y \<longleftrightarrow> callerDone (shared y) \<and> leaves_permits (shared y)"

lemma step_callerDone: "step code r p s = Some (s', p', new) \<Longrightarrow> callerDone s' = callerDone s"
  by (cases p) (auto simp: Let_def record_call_def split: if_splits reply.splits prod.splits)

lemma thread_leaves_permits:
  assumes "sys_step o1 (Thread i r) y = Some y'" "leaves_permits (shared y)"
  shows "leaves_permits (shared y')"
proof -
  obtain s p new where "step (program o1) r (threads y ! i) (shared y) = Some (s, p, new)" "shared y' = s"
    using assms(1) by (auto split: if_splits)
  with step_others [OF this(1)] step_same_limiter [OF this(1)] assms(2) show ?thesis
    by (simp add: leaves_permits_def same_limiter_def)
qed

lemma closing_thread: "sys_step o1 (Thread i r) y = Some y' \<Longrightarrow> closing y \<Longrightarrow> closing y'"
  using thread_leaves_permits [of o1 i r y y'] by (auto simp: closing_def step_callerDone split: if_splits)

lemma closing_event: "event l y \<Longrightarrow> sys_step o1 l y = Some y' \<Longrightarrow> closing y \<Longrightarrow> closing y'"
proof (cases l)
  case (Thread i r)
  then show "sys_step o1 l y = Some y' \<Longrightarrow> closing y \<Longrightarrow> ?thesis" using closing_thread by blast
qed (auto simp: closing_def leaves_permits_def)

text \<open>
  If a step is possible at all and the context is done, it is possible with an answer of the
  production suffix and without a tick.
\<close>

lemma step_drawn:
  "step code r p s \<noteq> None \<Longrightarrow> callerDone s \<Longrightarrow>
     \<exists>r'. (\<forall>x. r' = Suffix x \<longrightarrow> drawn_suffix x) \<and> \<not> takes_tick r' p \<and> step code r' p s \<noteq> None"
proof (cases p)
  case (Select k)
  then show "callerDone s \<Longrightarrow> ?thesis" by (intro exI [of _ "Choice False"]) simp
next
  case (NameSuffix k)
  then show ?thesis
    by (intro exI [of _ "Suffix ''00000000''"])
      (simp add: drawn_suffix_def alnum_char_def is_digit_def is_lower_def byte_def)
next
  case (Return v)
  then show "step code r p s \<noteq> None \<Longrightarrow> ?thesis" by simp
qed (cases r; fastforce split: if_splits reply.splits)+

lemma run_leaves_permits:
  "run_within o1 A ls y = Some y' \<Longrightarrow> list_all (\<lambda>l. case l of OthersMint b \<Rightarrow> False | OthersLaunch b \<Rightarrow> False | _ \<Rightarrow> True) ls
     \<Longrightarrow> leaves_permits (shared y) \<Longrightarrow> leaves_permits (shared y')"
proof (induction ls arbitrary: y)
  case (Cons l ls)
  then obtain z where z: "sys_step o1 l y = Some z" "run_within o1 A ls z = Some y'"
    by (auto split: if_splits option.splits)
  have "leaves_permits (shared z)"
  proof (cases l)
    case (Thread i r)
    with z(1) Cons.prems(3) show ?thesis using thread_leaves_permits by blast
  qed (use z(1) Cons.prems in \<open>auto simp: leaves_permits_def\<close>)
  with Cons z(2) show ?case by simp
qed simp

lemma spawn_within_suffix:
  "\<exists>y. run_within sample_orch suffix_env spawn_schedule (init_sys sample_orch sample_shared) = Some y
     \<and> length (threads y) = 4 \<and> leaves_permits (shared y)"
proof -
  have "suffix_env l y" if "l \<in> set spawn_schedule" for l y
    using that by (auto simp: spawn_schedule_def suffix_env_def drawn_suffix_def alnum_char_def
        is_lower_def is_digit_def byte_def)
  then obtain y where y: "run_within sample_orch suffix_env spawn_schedule (init_sys sample_orch sample_shared) = Some y"
    "length (threads y) = 4" using spawn_run_within [of suffix_env] by blast
  moreover have "leaves_permits (shared y)"
    by (rule run_leaves_permits [OF y(1)])
      (simp_all add: spawn_schedule_def leaves_permits_def init_sys_def sample_shared_def init_shared_def)
  ultimately show ?thesis by blast
qed

text \<open>A state in which everything has come to an end.\<close>

definition at_rest :: "sys \<Rightarrow> bool" where
  "at_rest y \<longleftrightarrow> list_all returned (threads y) \<and> shuttingDown (shared y)
     \<and> spawnInflight (shared y) = 0 \<and> tasks (shared y) = 0 \<and> reapWg (shared y) = 0
     \<and> inUse (mintLimiter (shared y)) = othersMint (shared y)
     \<and> inUse (launchLimiter (shared y)) = othersLaunch (shared y)"

lemma returned_at_rest:
  assumes "pool_inv M y" "shutdown_inv y" "\<not> crashed (shared y)" "list_all returned (threads y)"
  shows "at_rest y"
proof -
  obtain ph where ph: "threads y \<noteq> []" "drains ph (threads y ! 0)" "phase_holds ph (shared y)"
    using assms(2,3) by (auto simp: shutdown_inv_def)
  then have "returned (threads y ! 0)" using assms(4) by (auto simp: list_all_length)
  with ph(2) have "ph = 2" by (cases "threads y ! 0") auto
  with ph(3) have "shuttingDown (shared y)" by (simp add: phase_holds_def)
  with settled [OF assms(1,3,4)] assms(4) show ?thesis by (simp add: at_rest_def)
qed

text \<open>If a goroutine can run at all, it can run so when the context is done.\<close>

lemma runs_drawn:
  assumes "sys_step o1 (Thread i a) z \<noteq> None" "callerDone (shared z)"
  shows "\<exists>a'. \<not> takes_tick a' (threads z ! i) \<and> suffix_env (Thread i a') z \<and> sys_step o1 (Thread i a') z \<noteq> None"
proof -
  have i: "i < length (threads z)" "\<not> crashed (shared z)" "step (program o1) a (threads z ! i) (shared z) \<noteq> None"
    using assms(1) by (auto split: if_splits)
  from step_drawn [OF i(3) assms(2)] obtain a' where "\<forall>x. a' = Suffix x \<longrightarrow> drawn_suffix x"
    "\<not> takes_tick a' (threads z ! i)" "step (program o1) a' (threads z ! i) (shared z) \<noteq> None" by blast
  with i show ?thesis by (intro exI [of _ a']) (auto simp: suffix_env_def split: reply.splits)
qed



end
