(* ===== verification/Orchestrator_Registrations.thy ===== *)
theory Orchestrator_Registrations imports Orchestrator_Pool begin

text \<open>
  Registrations at GitHub. A registration the orchestrator mints is a resource it has to
  give up: either the instance launched with it consumes it, or the orchestrator asks
  GitHub to remove it. No path, early return, cancellation or panic-free interleaving
  forgets one.
\<close>

section \<open>Settling a registration\<close>

text \<open>
  \<open>settles n i p\<close>: every path of \<open>p\<close> launches the instance \<open>n\<close> with success or asks for
  the removal of runner \<open>i\<close>.
\<close>

primrec settles :: "string \<Rightarrow> int \<Rightarrow> proc \<Rightarrow> bool" where
  "settles n i (Return v) = (False)"
| "settles n i Again = (False)"
| "settles n i Crash = (True)"
| "settles n i (MintAcquire c k) = ((\<forall>x. settles n i (k x)))"
| "settles n i (MintRelease p) = (settles n i p)"
| "settles n i (LaunchAcquire c k) = ((\<forall>x. settles n i (k x)))"
| "settles n i (LaunchRelease p) = (settles n i p)"
| "settles n i (Reserve target k) = ((\<forall>x. settles n i (k x)))"
| "settles n i (InflightDec p) = (settles n i p)"
| "settles n i (StartSpawn k) = ((\<forall>x. settles n i (k x)))"
| "settles n i (TaskDone p) = (settles n i p)"
| "settles n i (TasksWait p) = (settles n i p)"
| "settles n i (Go c p) = (settles n i p)"
| "settles n i (WgDone p) = (settles n i p)"
| "settles n i (WgWait p) = (settles n i p)"
| "settles n i (BeginShutdown p) = (settles n i p)"
| "settles n i (Select k) = ((\<forall>x. settles n i (k x)))"
| "settles n i (CtxErr c k) = ((\<forall>x. settles n i (k x)))"
| "settles n i (Now k) = ((\<forall>x. settles n i (k x)))"
| "settles n i (NameSuffix k) = ((\<forall>x. settles n i (k x)))"
| "settles n i (TrackAdd r p) = (settles n i p)"
| "settles n i (TrackRemove n1 p) = (settles n i p)"
| "settles n i (TrackGet n1 k) = ((\<forall>x. settles n i (k x)))"
| "settles n i (TrackSize k) = ((\<forall>x. settles n i (k x)))"
| "settles n i (TrackNames k) = ((\<forall>x. settles n i (k x)))"
| "settles n i (TrackSnapshot k) = ((\<forall>x. settles n i (k x)))"
| "settles n i (MarkIdle n1 t k) = ((\<forall>x. settles n i (k x)))"
| "settles n i (MarkBusy n1 t k) = ((\<forall>x. settles n i (k x)))"
| "settles n i (MarkForTermination n1 k) = ((\<forall>x. settles n i (k x)))"
| "settles n i (AskTerminationPending n1 k) = ((\<forall>x. settles n i (k x)))"
| "settles n i (Resolve c a k) = ((\<forall>x. settles n i (k x)))"
| "settles n i (GenerateJIT c n1 w k) = ((\<forall>x. settles n i (k x)))"
| "settles n i (RemoveRunner c j k) = (j = i \<or> (\<forall>x. settles n i (k x)))"
| "settles n i (IncusLaunch c q k) = (if lr_Name q = n then \<forall>e. settles n i (k (Inl e)) else \<forall>x. settles n i (k x))"
| "settles n i (IncusStop c n1 k) = ((\<forall>x. settles n i (k x)))"
| "settles n i (IncusDelete c n1 k) = ((\<forall>x. settles n i (k x)))"
| "settles n i (IncusList c n1 k) = ((\<forall>x. settles n i (k x)))"
| "settles n i (Metric m p) = (settles n i p)"

text \<open>\<open>clean p\<close>: wherever \<open>p\<close> or a goroutine it starts mints a registration, it settles it.\<close>

primrec clean :: "proc \<Rightarrow> bool" where
  "clean (Return v) = (True)"
| "clean Again = True"
| "clean Crash = (True)"
| "clean (MintAcquire c k) = ((\<forall>x. clean (k x)))"
| "clean (MintRelease p) = (clean p)"
| "clean (LaunchAcquire c k) = ((\<forall>x. clean (k x)))"
| "clean (LaunchRelease p) = (clean p)"
| "clean (Reserve target k) = ((\<forall>x. clean (k x)))"
| "clean (InflightDec p) = (clean p)"
| "clean (StartSpawn k) = ((\<forall>x. clean (k x)))"
| "clean (TaskDone p) = (clean p)"
| "clean (TasksWait p) = (clean p)"
| "clean (Go c p) = (clean c \<and> clean p)"
| "clean (WgDone p) = (clean p)"
| "clean (WgWait p) = (clean p)"
| "clean (BeginShutdown p) = (clean p)"
| "clean (Select k) = ((\<forall>x. clean (k x)))"
| "clean (CtxErr c k) = ((\<forall>x. clean (k x)))"
| "clean (Now k) = ((\<forall>x. clean (k x)))"
| "clean (NameSuffix k) = ((\<forall>x. clean (k x)))"
| "clean (TrackAdd r p) = (clean p)"
| "clean (TrackRemove n p) = (clean p)"
| "clean (TrackGet n k) = ((\<forall>x. clean (k x)))"
| "clean (TrackSize k) = ((\<forall>x. clean (k x)))"
| "clean (TrackNames k) = ((\<forall>x. clean (k x)))"
| "clean (TrackSnapshot k) = ((\<forall>x. clean (k x)))"
| "clean (MarkIdle n t k) = ((\<forall>x. clean (k x)))"
| "clean (MarkBusy n t k) = ((\<forall>x. clean (k x)))"
| "clean (MarkForTermination n k) = ((\<forall>x. clean (k x)))"
| "clean (AskTerminationPending n k) = ((\<forall>x. clean (k x)))"
| "clean (Resolve c a k) = ((\<forall>x. clean (k x)))"
| "clean (GenerateJIT c n w k) = ((\<forall>x. clean (k x)) \<and> (\<forall>jit i. i \<noteq> 0 \<longrightarrow> settles n i (k (Inr (jit, Some i)))))"
| "clean (RemoveRunner c j k) = ((\<forall>x. clean (k x)))"
| "clean (IncusLaunch c q k) = ((\<forall>x. clean (k x)))"
| "clean (IncusStop c n k) = ((\<forall>x. clean (k x)))"
| "clean (IncusDelete c n k) = ((\<forall>x. clean (k x)))"
| "clean (IncusList c n k) = ((\<forall>x. clean (k x)))"
| "clean (Metric m p) = (clean p)"

section \<open>The program's goroutines\<close>

lemma settles_removeRunnerByID: "i \<noteq> 0 \<Longrightarrow> settles n i (removeRunnerByID c i k)"
  by (simp add: removeRunnerByID_def)

lemma settles_setTracked [simp]: "settles n i (setTracked k) = settles n i k"
  by (simp add: setTracked_def)

lemma settles_launch:
  "lr_Name req = n \<Longrightarrow> RunnerID tr = i \<Longrightarrow> i \<noteq> 0 \<Longrightarrow> settles n i (launch c req tr k)"
  by (simp add: launch_def settles_removeRunnerByID)

lemma clean_removeRunnerByID [simp]: "clean k \<Longrightarrow> clean (removeRunnerByID c n k)"
  by (simp add: removeRunnerByID_def)

lemma clean_removeRunnerBestEffort [simp]: "clean k \<Longrightarrow> clean (removeRunnerBestEffort c ref k)"
  by (simp add: removeRunnerBestEffort_def split: option.splits)

lemma clean_setTracked [simp]: "clean (setTracked k) = clean k"
  by (simp add: setTracked_def)

lemma clean_terminateInstance [simp]: "clean k \<Longrightarrow> clean (terminateInstance c n k)"
  by (simp add: terminateInstance_def Let_def split: option.splits)

lemma clean_launch [simp]: "clean k \<Longrightarrow> clean (launch c req tr k)"
  by (simp add: launch_def split: sum.splits)

lemma clean_spawn_tail [simp]: "clean (spawn_tail o1 n ci ref x)"
  by (simp add: spawn_tail_def Let_def)

lemma settles_spawn_tail: "i \<noteq> 0 \<Longrightarrow> settles n i (spawn_tail o1 n ci (Some i) x)"
  by (simp add: spawn_tail_def Let_def settles_launch buildLaunchRequest_def launch_inputs_def
      tracked_of_def runnerRefID_def)

lemma clean_spawn_mint [simp]: "clean (spawn_mint o1 rel)"
  by (simp add: spawn_mint_def Let_def settles_spawn_tail removeRunnerBestEffort_def
      settles_removeRunnerByID split: option.splits sum.splits)

lemma clean_spawnIdleRunner: "clean (spawnIdleRunner o1)"
  by (simp add: spawnIdleRunner_def split: sum.splits)

lemma clean_spawn_loop: "clean k \<Longrightarrow> clean (spawn_loop n k)"
  by (induction n) auto

lemma clean_parallelReap:
  "\<forall>f \<in> set fs. \<forall>k. clean k \<longrightarrow> clean (f k) \<Longrightarrow> clean k \<Longrightarrow> clean (parallelReap c fs k)"
  by (induction fs) auto

lemma clean_reapTracked: "clean k \<Longrightarrow> clean (reapTracked o1 c r now k)"
  by (simp add: reapTracked_def split: runnerState.splits)

lemma clean_driftSweep: "clean k \<Longrightarrow> clean (driftSweep o1 c k)"
  by (auto simp: driftSweep_def Let_def intro!: clean_parallelReap split: sum.splits)

lemma clean_reapOnce: "clean k \<Longrightarrow> clean (reapOnce o1 c k)"
  by (auto simp: reapOnce_def intro!: clean_parallelReap clean_reapTracked clean_driftSweep)

lemma clean_Run: "clean (Run o1)"
  by (auto simp: Run_def run_shutdown_def intro: clean_reapOnce)

lemma clean_code: "clean (spawn_body (program o1)) \<and> clean (loop_head (program o1))"
  by (simp add: clean_spawnIdleRunner clean_Run)

lemma clean_HandleDesired: "clean (HandleDesiredRunnerCount o1 n)"
  by (simp add: HandleDesiredRunnerCount_def Let_def clean_spawn_loop)

lemma clean_HandleJobStarted: "clean (HandleJobStarted e)"
  by (simp add: HandleJobStarted_def split: option.splits)

lemma clean_HandleJobCompleted: "clean (HandleJobCompleted e)"
  by (simp add: HandleJobCompleted_def split: option.splits)

lemmas clean_entry = clean_HandleDesired clean_HandleJobStarted clean_HandleJobCompleted clean_Run

section \<open>The invariant\<close>

definition settled :: "string \<Rightarrow> int \<Rightarrow> shared \<Rightarrow> bool" where
  "settled n i s \<longleftrightarrow> CallRemoveRunner i \<in> set (log s) \<or> CallLaunch n True \<in> set (log s)"

definition minted :: "string \<Rightarrow> int \<Rightarrow> shared \<Rightarrow> bool" where
  "minted n i s \<longleftrightarrow> i \<noteq> 0 \<and> CallJIT n (Some i) True \<in> set (log s)"

definition registrations_inv :: "sys \<Rightarrow> bool" where
  "registrations_inv y \<longleftrightarrow> list_all clean (threads y)
     \<and> (crashed (shared y)
        \<or> (\<forall>n i. minted n i (shared y) \<longrightarrow>
             settled n i (shared y) \<or> (\<exists>p \<in> set (threads y). settles n i p)))"

lemma step_log: "step code r p s = Some (s', p', new) \<Longrightarrow> set (log s) \<subseteq> set (log s')"
  by (cases p) (auto simp: Let_def record_call_def split: if_splits reply.splits prod.splits)

lemma step_clean:
  "step code r p s = Some (s', p', new) \<Longrightarrow> clean p \<Longrightarrow> clean (spawn_body code) \<and> clean (loop_head code) \<Longrightarrow>
     clean p' \<and> list_all clean new"
  by (cases p) (auto simp: Let_def split: if_splits reply.splits prod.splits)

lemma step_settles:
  "step code r p s = Some (s', p', new) \<Longrightarrow> settles n i p \<Longrightarrow>
     settled n i s' \<or> settles n i p' \<or> crashed s'"
  by (cases p) (auto simp: settled_def Let_def record_call_def is_ok_def
      split: if_splits reply.splits prod.splits sum.splits)

lemma step_minted:
  "step code r p s = Some (s', p', new) \<Longrightarrow> clean p \<Longrightarrow> minted n i s' \<Longrightarrow>
     minted n i s \<or> settles n i p'"
  by (cases p) (auto simp: minted_def Let_def record_call_def is_ok_def
      split: if_splits reply.splits prod.splits sum.splits)

lemma settled_mono: "set (log s) \<subseteq> set (log s') \<Longrightarrow> settled n i s \<Longrightarrow> settled n i s'"
  by (auto simp: settled_def)

lemma step_crashed: "step code r p s = Some (s', p', new) \<Longrightarrow> crashed s \<Longrightarrow> crashed s'"
  by (cases p) (auto simp: Let_def record_call_def split: if_splits reply.splits prod.splits)

lemma registrations_inv_thread:
  assumes inv: "registrations_inv y" and i: "i < length (threads y)" "\<not> crashed (shared y)"
    and st: "step code r (threads y ! i) (shared y) = Some (s', p', new)" and sp: "clean (spawn_body code) \<and> clean (loop_head code)"
  shows "registrations_inv \<lparr>shared = s', threads = (threads y)[i := p'] @ new\<rparr>"
proof -
  let ?p = "threads y ! i" and ?ts = "(threads y)[i := p'] @ new"
  have cl: "list_all clean (threads y)" and cp: "clean ?p"
    using inv i(1) by (auto simp: registrations_inv_def list_all_length)
  have "settled n j s' \<or> (\<exists>p \<in> set ?ts. settles n j p)" if m: "minted n j s'" and nc: "\<not> crashed s'" for n j
  proof (cases "settles n j p' \<or> settled n j s'")
    case True
    then show ?thesis using i(1) by (auto simp: set_update_memI)
  next
    case False
    with step_minted [OF st cp m] have "minted n j (shared y)" by blast
    with inv i(2) False settled_mono [OF step_log [OF st]]
    obtain p where p: "p \<in> set (threads y)" "settles n j p"
      unfolding registrations_inv_def by blast
    then obtain h where h: "h < length (threads y)" "p = threads y ! h" by (auto simp: in_set_conv_nth)
    have "h \<noteq> i" using step_settles [OF st, of n j] h(2) p(2) False nc by auto
    then have "p \<in> set ?ts" using h by (auto simp: in_set_conv_nth intro!: exI [of _ h])
    with p(2) show ?thesis by blast
  qed
  moreover have "list_all clean ?ts"
    using list_all_update [OF cl] step_clean [OF st cp sp] by auto
  ultimately show ?thesis by (auto simp: registrations_inv_def)
qed

lemma registrations_inv_mono:
  assumes "registrations_inv y" "log (shared y') = log (shared y)" "crashed (shared y') = crashed (shared y)"
    and "set (threads y) \<subseteq> set (threads y')" "list_all clean (threads y')"
  shows "registrations_inv y'"
proof -
  have "minted n i (shared y') = minted n i (shared y)" "settled n i (shared y') = settled n i (shared y)"
    for n i using assms(2) by (simp_all add: minted_def settled_def)
  then show ?thesis using assms(1,3-5) unfolding registrations_inv_def by auto blast
qed

lemma registrations_inv_step:
  assumes "sys_step o1 l y = Some y'" "registrations_inv y"
  shows "registrations_inv y'"
proof (cases l)
  case (Thread i r)
  with assms registrations_inv_thread [OF assms(2) _ _ _ clean_code] show ?thesis
    by (auto split: if_splits)
qed (use assms in \<open>auto simp: clean_entry Let_def registrations_inv_def [of y] split: if_splits
    intro!: registrations_inv_mono [OF assms(2)]\<close>)

interpretation registrations: system_invariant o1 A "init_shared ml ll old" registrations_inv for o1 A ml ll old
proof
  show "registrations_inv (init_sys o1 (init_shared ml ll old))" for n
    using clean_Run [of o1]
    by (simp add: registrations_inv_def init_sys_def init_shared_def minted_def)
qed (rule registrations_inv_step)

lemmas registrations_inv_reachable = registrations.holds

text \<open>
  C5: no registration is forgotten on the way. At any time, as long as no goroutine has
  panicked, for each registration GitHub handed out (with a non-zero runner ID) the removal
  has been requested, or the instance it was minted for has been launched with success, or
  some goroutine that has not returned does one of the two on every path it has left. So
  when all goroutines have returned, each was consumed by a launch or its removal requested,
  whatever failed or was cancelled.
\<close>

theorem no_registration_forgotten:
  assumes "New u addr sid old c = Inr (o1, s0)" "limiters_ok c" "reachable o1 A s0 y"
    and "\<not> crashed (shared y)" "CallJIT n (Some i) True \<in> set (log (shared y))" "i \<noteq> 0"
  shows "CallRemoveRunner i \<in> set (log (shared y)) \<or> CallLaunch n True \<in> set (log (shared y))
     \<or> (\<exists>p \<in> set (threads y). \<not> returned p \<and> settles n i p)"
proof -
  have "registrations_inv y"
    using New_shape [OF assms(1,2)] registrations_inv_reachable assms(3) by metis
  then have "settled n i (shared y) \<or> (\<exists>p \<in> set (threads y). settles n i p)"
    using assms(4-6) by (auto simp: registrations_inv_def minted_def)
  moreover have "\<not> returned p" if "settles n i p" for p using that by (cases p) auto
  ultimately show ?thesis unfolding settled_def by blast
qed

text \<open>GitHub answers with an empty JIT configuration: Render refuses it, runner 11 is removed.\<close>

theorem no_registration_forgotten_witness:
  "\<exists>y. reachable sample_orch any_env sample_shared y \<and> CallRemoveRunner 11 \<in> set (log (shared y))
     \<and> \<not> CallLaunch ''incuse-4vcpu-8gb-20gb-amd64-0a1b2c3d'' True \<in> set (log (shared y))"
proof -
  let ?n = "''incuse-4vcpu-8gb-20gb-amd64-0a1b2c3d''"
  let ?ls = "[Desired 1, Thread 1 NoReply, Thread 1 NoReply, Thread 2 (Choice True),
     Thread 2 (Suffix ''0a1b2c3d''), Thread 2 (JITReply (Inr ([], Some 11))), Thread 2 NoReply,
     Thread 2 (ErrReply None), Thread 2 NoReply, Thread 2 NoReply, Thread 2 NoReply,
     CancelCaller, Thread 0 (Choice False), Thread 0 NoReply, Thread 0 NoReply]"
  have ok: "limiters_ok sample_cfg" by (simp add: limiters_ok_def sample_cfg_def)
  obtain e where e: "Render (cloud_init_spec sample_orch zero3 [] ?n) = Inl e"
    by (simp add: Render_def validate_cloudinit_def cloud_init_spec_def)
  have u: "UseBakedImage (o_runnerCfg sample_orch)" "ss_Name (o_spec sample_orch) = ''incuse-4vcpu-8gb-20gb-amd64''"
    "o_lower sample_orch = id" "ss_MaxRunners (o_spec sample_orch) = 2"
    by (simp_all add: sample_defs)
  obtain y where y: "sys_run sample_orch ?ls (init_sys sample_orch sample_shared) = Some y"
    "list_all returned (threads y)" "\<not> crashed (shared y)"
    "CallJIT ?n (Some 11) True \<in> set (log (shared y))"
    "\<not> CallLaunch ?n True \<in> set (log (shared y))"
    by (simp add: run_simps u Run_def run_shutdown_def spawn_name e removeRunnerBestEffort_def removeRunnerByID_def
      is_ok_def ctx_done_def cong: wait_congs)
  have r: "reachable sample_orch any_env sample_shared y"
    using sys_run_reachable [OF reachable.reach_init y(1)] .
  from no_registration_forgotten [OF sample_New ok r y(3,4)] y(2,5) r show ?thesis by (auto simp: list_all_iff)
qed

end
