(* ===== verification/Orchestrator_Targets.thy ===== *)
theory Orchestrator_Targets imports Orchestrator_Pool begin

text \<open>
  Which instances the orchestrator kills. Whatever asks Incus to stop or delete an instance
  (the reaper, a completed job, a spawn asked to terminate, the drift sweep) does it only
  for a name that is not tracked any more, and the drift sweep only for instances that carry
  the tags of this class. The proof rests on the order of the operations in the source:
  terminateInstance untracks before it stops, and driftSweep lists the instances before it
  reads the tracked names.
\<close>

section \<open>Instances of a class\<close>

definition own :: "orch \<Rightarrow> Instance \<Rightarrow> bool" where
  "own o1 inst \<longleftrightarrow> cfg_get (inst_Config inst) metaManaged = ''true''
     \<and> cfg_get (inst_Config inst) metaScaleSetID = itoa (o_scaleSetID o1)"

definition own_names :: "orch \<Rightarrow> Instance list \<Rightarrow> string set" where
  "own_names o1 is = inst_Name ` {inst \<in> set is. own o1 inst}"

lemma is_orphan_own: "is_orphan o1 known inst \<longleftrightarrow> own o1 inst \<and> inst_Name inst \<notin> known"
  by (auto simp: is_orphan_def own_def)

text \<open>
  The drift sweep recognises exactly the launches of its class: an instance that still
  carries the ownership tags some launch request gave it is an orphan for a class if and
  only if the scale set IDs agree and its name is not tracked.
\<close>

theorem drift_filter_exact:
  assumes "inst_Config inst metaManaged = lr_Config (buildLaunchRequest i) metaManaged"
    and "inst_Config inst metaScaleSetID = lr_Config (buildLaunchRequest i) metaScaleSetID"
  shows "is_orphan o1 known inst \<longleftrightarrow> in_scaleSetID i = o_scaleSetID o1 \<and> inst_Name inst \<notin> known"
  using assms by (auto simp: is_orphan_own own_def buildLaunchRequest_def Let_def cfg_get_def
      launch_config_meta itoa_inj)

definition launched_instance :: "launchInputs \<Rightarrow> Instance" where
  "launched_instance i =
     \<lparr>inst_Name = in_runnerName i, inst_Description = [], inst_Type = ''virtual-machine'',
      inst_Status = ''Running'', inst_Project = ''incuse'',
      inst_Config = (lr_Config (buildLaunchRequest i))(''volatile.uuid'' \<mapsto> ''0'')\<rparr>"

theorem drift_filter_exact_witness:
  "is_orphan sample_orch {} (launched_instance (launch_inputs sample_orch ''r1'' [] 0))
   \<and> \<not> is_orphan (sample_orch\<lparr>o_scaleSetID := 8\<rparr>) {} (launched_instance (launch_inputs sample_orch ''r1'' [] 0))"
proof -
  let ?i = "launch_inputs sample_orch ''r1'' [] 0"
  have m: "inst_Config (launched_instance ?i) metaManaged = lr_Config (buildLaunchRequest ?i) metaManaged"
    "inst_Config (launched_instance ?i) metaScaleSetID = lr_Config (buildLaunchRequest ?i) metaScaleSetID"
    by (simp_all add: launched_instance_def meta_keys)
  show ?thesis
    unfolding drift_filter_exact [OF m] by (simp add: launch_inputs_def sample_orch_def)
qed

section \<open>What a goroutine knows\<close>

text \<open>
  \<open>tgt o1 G E p\<close>: \<open>p\<close> stops and deletes only instances that are gone from the tracker, if
  the names of \<open>E\<close> were once tracked or left behind by an earlier process, and those of \<open>G\<close>
  are moreover not tracked any more. Both facts are stable when no name is tracked twice.
\<close>

primrec tgt :: "orch \<Rightarrow> string set \<Rightarrow> string set \<Rightarrow> proc \<Rightarrow> bool" where
  "tgt o1 G E (Return v) = (True)"
| "tgt o1 G E Again = (True)"
| "tgt o1 G E Crash = (True)"
| "tgt o1 G E (MintAcquire c k) = ((\<forall>x. tgt o1 G E (k x)))"
| "tgt o1 G E (MintRelease p) = (tgt o1 G E p)"
| "tgt o1 G E (LaunchAcquire c k) = ((\<forall>x. tgt o1 G E (k x)))"
| "tgt o1 G E (LaunchRelease p) = (tgt o1 G E p)"
| "tgt o1 G E (Reserve target k) = ((\<forall>x. tgt o1 G E (k x)))"
| "tgt o1 G E (InflightDec p) = (tgt o1 G E p)"
| "tgt o1 G E (StartSpawn k) = ((\<forall>x. tgt o1 G E (k x)))"
| "tgt o1 G E (TaskDone p) = (tgt o1 G E p)"
| "tgt o1 G E (TasksWait p) = (tgt o1 G E p)"
| "tgt o1 G E (Go c p) = (tgt o1 G E c \<and> tgt o1 G E p)"
| "tgt o1 G E (WgDone p) = (tgt o1 G E p)"
| "tgt o1 G E (WgWait p) = (tgt o1 G E p)"
| "tgt o1 G E (BeginShutdown p) = (tgt o1 G E p)"
| "tgt o1 G E (Select k) = ((\<forall>x. tgt o1 G E (k x)))"
| "tgt o1 G E (CtxErr c k) = ((\<forall>x. tgt o1 G E (k x)))"
| "tgt o1 G E (Now k) = ((\<forall>x. tgt o1 G E (k x)))"
| "tgt o1 G E (NameSuffix k) = ((\<forall>x. tgt o1 G E (k x)))"
| "tgt o1 G E (TrackAdd r p) = (tgt o1 G (insert (tr_Name r) E) p)"
| "tgt o1 G E (TrackRemove n p) = (tgt o1 (if n \<in> E then insert n G else G) E p)"
| "tgt o1 G E (TrackGet n k) = ((\<forall>v. tgt o1 G (insert n E) (k (Some v))) \<and> tgt o1 G E (k None))"
| "tgt o1 G E (TrackSize k) = ((\<forall>x. tgt o1 G E (k x)))"
| "tgt o1 G E (TrackNames k) = (\<forall>S. tgt o1 (G \<union> (E - S)) E (k S))"
| "tgt o1 G E (TrackSnapshot k) = (\<forall>xs. tgt o1 G (E \<union> tr_Name ` set xs) (k xs))"
| "tgt o1 G E (MarkIdle n t k) = ((\<forall>x. tgt o1 G E (k x)))"
| "tgt o1 G E (MarkBusy n t k) = ((\<forall>x. tgt o1 G E (k x)))"
| "tgt o1 G E (MarkForTermination n k) = ((\<forall>x. tgt o1 G E (k x)))"
| "tgt o1 G E (AskTerminationPending n k) = ((\<forall>x. tgt o1 G E (k x)))"
| "tgt o1 G E (Resolve c a k) = ((\<forall>x. tgt o1 G E (k x)))"
| "tgt o1 G E (GenerateJIT c n w k) = ((\<forall>x. tgt o1 G E (k x)))"
| "tgt o1 G E (RemoveRunner c j k) = ((\<forall>x. tgt o1 G E (k x)))"
| "tgt o1 G E (IncusLaunch c q k) = (lr_Name q \<in> E \<and> (\<forall>x. tgt o1 G E (k x)))"
| "tgt o1 G E (IncusStop c n k) = (n \<in> G \<and> (\<forall>x. tgt o1 G E (k x)))"
| "tgt o1 G E (IncusDelete c n k) = (n \<in> G \<and> (\<forall>x. tgt o1 G E (k x)))"
| "tgt o1 G E (IncusList c n k) = ((\<forall>e. tgt o1 G E (k (Inl e))) \<and> (\<forall>is. tgt o1 G (E \<union> own_names o1 is) (k (Inr is))))"
| "tgt o1 G E (Metric m p) = (tgt o1 G E p)"

lemma tgt_mono: "tgt o1 G E p \<Longrightarrow> G \<subseteq> G' \<Longrightarrow> E \<subseteq> E' \<Longrightarrow> tgt o1 G' E' p"
proof (induction p arbitrary: G E G' E')
  case (TrackAdd r p)
  from TrackAdd.prems show ?case by (simp, elim TrackAdd.IH) auto
next
  case (TrackRemove n p)
  have "tgt o1 (if n \<in> E then insert n G else G) E p" using TrackRemove.prems by simp
  moreover have "(if n \<in> E then insert n G else G) \<subseteq> (if n \<in> E' then insert n G' else G')"
    using TrackRemove.prems by auto
  ultimately show ?case using TrackRemove.IH TrackRemove.prems(3) by (simp only: tgt.simps)
next
  case (TrackGet n k)
  have "tgt o1 G' (insert n E') (k (Some v))" for v
    by (rule TrackGet.IH [OF rangeI, of G "insert n E"]) (use TrackGet.prems in auto)
  moreover have "tgt o1 G' E' (k None)"
    by (rule TrackGet.IH [OF rangeI, of G E]) (use TrackGet.prems in auto)
  ultimately show ?case by simp
next
  case (TrackNames k)
  have "tgt o1 (G' \<union> (E' - S)) E' (k S)" for S
    by (rule TrackNames.IH [OF rangeI, of "G \<union> (E - S)" E]) (use TrackNames.prems in auto)
  then show ?case by simp
next
  case (TrackSnapshot k)
  have "tgt o1 G' (E' \<union> tr_Name ` set xs) (k xs)" for xs
    by (rule TrackSnapshot.IH [OF rangeI, of G "E \<union> tr_Name ` set xs"]) (use TrackSnapshot.prems in auto)
  then show ?case by simp
next
  case (IncusList c n k)
  have "tgt o1 G' (E' \<union> own_names o1 xs) (k (Inr xs))" for xs
    by (rule IncusList.IH [OF rangeI, of G "E \<union> own_names o1 xs"]) (use IncusList.prems in auto)
  moreover have "tgt o1 G' E' (k (Inl e))" for e
    by (rule IncusList.IH [OF rangeI, of G E]) (use IncusList.prems in auto)
  ultimately show ?case by simp
qed (simp; blast)+

section \<open>The program's goroutines\<close>

lemma tgt_removeRunnerByID [simp]: "tgt o1 G E k \<Longrightarrow> tgt o1 G E (removeRunnerByID c n k)"
  by (simp add: removeRunnerByID_def)

lemma tgt_removeRunnerBestEffort [simp]: "tgt o1 G E k \<Longrightarrow> tgt o1 G E (removeRunnerBestEffort c ref k)"
  by (simp add: removeRunnerBestEffort_def split: option.splits)

lemma tgt_setTracked [simp]: "tgt o1 G E (setTracked k) = tgt o1 G E k"
  by (simp add: setTracked_def)

lemma tgt_insert: "tgt o1 G E k \<Longrightarrow> tgt o1 (insert n G) E k" "tgt o1 G E k \<Longrightarrow> tgt o1 G (insert n E) k"
  by (auto elim: tgt_mono)

lemma tgt_terminateInstance:
  "n \<in> E \<Longrightarrow> tgt o1 G E k \<Longrightarrow> tgt o1 G E (terminateInstance c n k)"
  by (simp add: terminateInstance_def Let_def tgt_insert insert_absorb split: option.splits)

lemma tgt_launch:
  assumes "tr_Name tr \<in> E" "lr_Name req = tr_Name tr" "tgt o1 G E k"
  shows "tgt o1 G E (launch c req tr k)"
  using assms by (auto simp: launch_def tgt_insert intro!: tgt_terminateInstance split: sum.splits)

lemma tgt_spawn_tail [simp]: "tgt o1 G E (spawn_tail o1 n ci ref x)"
  by (simp add: spawn_tail_def Let_def tgt_launch buildLaunchRequest_def launch_inputs_def tracked_of_def)

lemma tgt_spawn_mint [simp]: "tgt o1 G E (spawn_mint o1 rel)"
  by (simp add: spawn_mint_def Let_def split: option.splits sum.splits)

lemma tgt_spawnIdleRunner: "tgt o1 G E (spawnIdleRunner o1)"
  by (simp add: spawnIdleRunner_def split: sum.splits)

lemma tgt_spawn_loop: "tgt o1 G E k \<Longrightarrow> tgt o1 G E (spawn_loop n k)"
  by (induction n) auto

lemma tgt_parallelReap:
  "\<forall>f \<in> set fs. \<forall>k. tgt o1 G E k \<longrightarrow> tgt o1 G E (f k) \<Longrightarrow> tgt o1 G E k \<Longrightarrow> tgt o1 G E (parallelReap c fs k)"
  by (induction fs) auto

lemma tgt_reapTracked: "tr_Name r \<in> E \<Longrightarrow> tgt o1 G E k \<Longrightarrow> tgt o1 G E (reapTracked o2 c r now k)"
  by (simp add: reapTracked_def tgt_terminateInstance split: runnerState.splits)

lemma tgt_driftSweep:
  assumes "tgt o1 G E k"
  shows "tgt o1 G E (driftSweep o1 c k)"
proof -
  have *: "tgt o1 G' E' k" if "G \<subseteq> G'" "E \<subseteq> E'" for G' E'
    using assms that by (rule tgt_mono)
  show ?thesis
    by (auto simp: driftSweep_def Let_def * is_orphan_own own_names_def intro!: tgt_parallelReap)
qed

lemma tgt_reapOnce:
  assumes "tgt o1 G E k"
  shows "tgt o1 G E (reapOnce o1 c k)"
proof -
  have *: "tgt o1 G E' k" if "E \<subseteq> E'" for E'
    using assms that by (auto elim: tgt_mono)
  show ?thesis
    by (auto simp: reapOnce_def * intro!: tgt_parallelReap tgt_reapTracked tgt_driftSweep)
qed

lemma tgt_Run: "tgt o1 {} {} (Run o1)"
  by (auto simp: Run_def run_shutdown_def intro: tgt_reapOnce)

lemma tgt_HandleDesired: "tgt o1 {} {} (HandleDesiredRunnerCount o1 n)"
  by (simp add: HandleDesiredRunnerCount_def Let_def tgt_spawn_loop)

lemma tgt_HandleJobStarted: "tgt o1 {} {} (HandleJobStarted e)"
  by (simp add: HandleJobStarted_def split: option.splits)

lemma tgt_HandleJobCompleted: "tgt o1 {} {} (HandleJobCompleted e)"
  by (simp add: HandleJobCompleted_def tgt_terminateInstance split: option.splits)

lemmas tgt_entry = tgt_HandleDesired tgt_HandleJobStarted tgt_HandleJobCompleted tgt_Run

section \<open>The environment\<close>

text \<open>The instance a goroutine is asking Incus to launch, and the one it is about to kill.\<close>

fun launching :: "proc \<Rightarrow> string option" where
  "launching (IncusLaunch c q k) = Some (lr_Name q)"
| "launching _ = None"

fun kills :: "proc \<Rightarrow> string option" where
  "kills (IncusStop c n k) = Some n"
| "kills (IncusDelete c n k) = Some n"
| "kills _ = None"

text \<open>
  What the safety of the kills relies on: a runner name is drawn at most once (the random
  suffix), and an instance that Incus lists with the tags of this class was launched by this
  process, is being launched, or is one of the \<open>old\<close> ones of an earlier process.
\<close>

definition known_instance :: "string set \<Rightarrow> sys \<Rightarrow> string \<Rightarrow> bool" where
  "known_instance old y n \<longleftrightarrow>
     n \<in> old \<or> CallLaunch n True \<in> set (log (shared y)) \<or> CallLaunch n False \<in> set (log (shared y))
     \<or> list_ex (\<lambda>p. launching p = Some n) (threads y)"

definition trusted_env :: "orch \<Rightarrow> string set \<Rightarrow> label \<Rightarrow> sys \<Rightarrow> bool" where
  "trusted_env o1 old l y =
     (case l of
        Thread i r \<Rightarrow>
          i < length (threads y) \<longrightarrow>
            (case threads y ! i of
               TrackAdd t p \<Rightarrow> tr_Name t \<notin> ever (shared y)
             | IncusList c pr k \<Rightarrow>
                 (case r of
                    ListReply (Inr is) \<Rightarrow> list_all (\<lambda>inst. own o1 inst \<longrightarrow> known_instance old y (inst_Name inst)) is
                  | _ \<Rightarrow> True)
             | _ \<Rightarrow> True)
      | _ \<Rightarrow> True)"

section \<open>The invariant\<close>

definition tracked :: "shared \<Rightarrow> string set" where
  "tracked s = dom (map_of (s_tracker s))"

lemma tracked_simps [simp]:
  "tracked (s\<lparr>spawnInflight := a\<rparr>) = tracked s" "tracked (s\<lparr>shuttingDown := b\<rparr>) = tracked s"
  "tracked (s\<lparr>lifecycleDone := b\<rparr>) = tracked s" "tracked (s\<lparr>mintLimiter := l\<rparr>) = tracked s"
  "tracked (s\<lparr>launchLimiter := l\<rparr>) = tracked s" "tracked (s\<lparr>tasks := n\<rparr>) = tracked s"
  "tracked (s\<lparr>reapWg := n\<rparr>) = tracked s" "tracked (s\<lparr>crashed := b\<rparr>) = tracked s"
  "tracked (record_call c s) = tracked s" "ever (record_call c s) = ever s"
  by (simp_all add: tracked_def record_call_def)

definition knows :: "orch \<Rightarrow> shared \<Rightarrow> proc \<Rightarrow> bool" where
  "knows o1 s p \<longleftrightarrow> (\<exists>G E. tgt o1 G E p \<and> E \<subseteq> ever s \<and> G \<subseteq> ever s - tracked s)"

definition launched :: "shared \<Rightarrow> string set" where
  "launched s = {n. \<exists>b. CallLaunch n b \<in> set (log s)}"

definition names_inv :: "string set \<Rightarrow> shared \<Rightarrow> bool" where
  "names_inv old s \<longleftrightarrow> tracker_inv (s_tracker s) \<and> tracked s \<subseteq> ever s \<and> old \<subseteq> ever s
     \<and> launched s \<subseteq> ever s"

definition targets_inv :: "orch \<Rightarrow> string set \<Rightarrow> sys \<Rightarrow> bool" where
  "targets_inv o1 old y \<longleftrightarrow> names_inv old (shared y) \<and> list_all (knows o1 (shared y)) (threads y)"

lemma knows_launching: "knows o1 s p \<Longrightarrow> launching p = Some n \<Longrightarrow> n \<in> ever s"
  by (cases p) (auto simp: knows_def)

lemma knows_kills: "knows o1 s p \<Longrightarrow> kills p = Some n \<Longrightarrow> n \<in> ever s \<and> n \<notin> tracked s"
  by (cases p) (auto simp: knows_def)

lemma known_ever: "targets_inv o1 old y \<Longrightarrow> known_instance old y n \<Longrightarrow> n \<in> ever (shared y)"
  by (auto simp: targets_inv_def names_inv_def known_instance_def launched_def list_all_iff list_ex_iff
      dest: knows_launching)

text \<open>What a step may do to the names: nothing is forgotten, a new name is new.\<close>

definition names_step :: "shared \<Rightarrow> shared \<Rightarrow> bool" where
  "names_step s s' \<longleftrightarrow> ever s \<subseteq> ever s' \<and> tracked s' \<inter> ever s \<subseteq> tracked s"

lemma knows_step: "knows o1 s q \<Longrightarrow> names_step s s' \<Longrightarrow> knows o1 s' q"
  unfolding knows_def names_step_def by blast

lemma knowsI: "tgt o1 G E p \<Longrightarrow> E \<subseteq> ever s \<Longrightarrow> G \<subseteq> ever s - tracked s \<Longrightarrow> knows o1 s p"
  unfolding knows_def by blast

lemma snapshot_tracked:
  "tracker_inv t \<Longrightarrow> mset xs = mset (snapshot t) \<Longrightarrow> tr_Name ` set xs = dom (map_of t)"
proof -
  assume "tracker_inv t" and eq: "mset xs = mset (snapshot t)"
  then have "\<forall>e \<in> set t. tr_Name (snd e) = fst e" by (auto simp: tracker_inv_def)
  then have "map tr_Name (snapshot t) = map fst t" by (simp add: snapshot_def)
  then have "tr_Name ` set (snapshot t) = dom (map_of t)"
    unfolding dom_map_of_conv_image_fst by (metis set_map)
  then show ?thesis using mset_eq_setD [OF eq] by simp
qed

lemma map_entry_absent: "map_of t n = None \<Longrightarrow> AList.map_entry n f t = t"
  by (induction t) (auto split: if_splits)

lemma mark_entry:
  "snd (markIdle n x t) = AList.map_entry n (idle_entry x) t"
  "snd (markBusy n x t) = AList.map_entry n (busy_entry x) t"
  "snd (markForTermination n t) = AList.map_entry n pending_entry t"
  by (cases "map_of t n"; simp add: markIdle_def markBusy_def markForTermination_def map_entry_absent)+

lemma entry_names:
  "tr_Name (idle_entry x r) = tr_Name r" "tr_Name (busy_entry x r) = tr_Name r"
  "tr_Name (pending_entry r) = tr_Name r"
  by (simp_all add: idle_entry_def busy_entry_def pending_entry_def)

lemma inv_after:
  assumes "tracker_inv t"
  shows "tracker_inv (tracker_add r t)" "tracker_inv (tracker_remove n t)"
    "tracker_inv (snd (markIdle n x t))" "tracker_inv (snd (markBusy n x t))"
    "tracker_inv (snd (markForTermination n t))"
  using assms by (simp_all only: mark_entry tracker.inv_add tracker.inv_remove tracker.inv_modify entry_names)

lemma dom_after:
  assumes "tracker_inv t"
  shows "dom (map_of (tracker_add r t)) = insert (tr_Name r) (dom (map_of t))"
    "dom (map_of (tracker_remove n t)) = dom (map_of t) - {n}"
    "dom (map_of (snd (markIdle n x t))) = dom (map_of t)"
    "dom (map_of (snd (markBusy n x t))) = dom (map_of t)"
    "dom (map_of (snd (markForTermination n t))) = dom (map_of t)"
proof -
  show "dom (map_of (tracker_add r t)) = insert (tr_Name r) (dom (map_of t))"
    using tracker.lookup_add [OF assms, of r] by simp
  show "dom (map_of (tracker_remove n t)) = dom (map_of t) - {n}"
    using tracker.lookup_remove [OF assms, of n] by simp
qed (simp_all only: mark_entry tracker.count_modify(2) [OF assms] entry_names)

lemma names_inv_quiet:
  assumes "names_inv old s" "s_tracker s' = s_tracker s" "ever s' = ever s" "launched s' \<subseteq> launched s \<union> ever s"
  shows "names_inv old s' \<and> names_step s s'"
proof -
  have "tracked s' = tracked s" using assms(2) by (simp add: tracked_def)
  with assms show ?thesis by (auto simp: names_inv_def names_step_def)
qed

lemma names_inv_tracker:
  assumes "names_inv old s" "tracker_inv (s_tracker s')" "log s' = log s" "ever s \<subseteq> ever s'"
    and "tracked s' \<subseteq> ever s'" "tracked s' \<inter> ever s \<subseteq> tracked s"
  shows "names_inv old s' \<and> names_step s s'"
proof -
  have "launched s' = launched s" using assms(3) by (simp add: launched_def)
  with assms show ?thesis by (auto simp: names_inv_def names_step_def)
qed

lemma names_after:
  assumes st: "step code r p s = Some (s', p', new)" and inv: "names_inv old s"
    and fresh: "\<And>t q. p = TrackAdd t q \<Longrightarrow> tr_Name t \<notin> ever s" and kn: "knows o1 s p"
  shows "names_inv old s' \<and> names_step s s'"
proof -
  have ti: "tracker_inv (s_tracker s)" and te: "tracked s \<subseteq> ever s" using inv by (simp_all add: names_inv_def)
  show ?thesis
  proof (cases p)
    case (TrackAdd t q)
    with st have s': "s_tracker s' = tracker_add t (s_tracker s)" "log s' = log s"
      "ever s' = insert (tr_Name t) (ever s)" by auto
    have "tracked s' = insert (tr_Name t) (tracked s)"
      unfolding tracked_def s' by (rule dom_after(1) [OF ti])
    with inv te s' fresh [OF TrackAdd] show ?thesis
      by (intro names_inv_tracker) (auto simp: inv_after(1) [OF ti])
  next
    case (TrackRemove n q)
    with st have s': "s_tracker s' = tracker_remove n (s_tracker s)" "log s' = log s" "ever s' = ever s" by auto
    have "tracked s' = tracked s - {n}"
      unfolding tracked_def s' by (rule dom_after(2) [OF ti])
    with inv te s' show ?thesis by (intro names_inv_tracker) (auto simp: inv_after(2) [OF ti])
  next
    case (MarkIdle n x k)
    with st have s': "s_tracker s' = snd (markIdle n x (s_tracker s))" "log s' = log s" "ever s' = ever s"
      by (auto split: prod.splits)
    have "tracked s' = tracked s" unfolding tracked_def s' by (rule dom_after(3) [OF ti])
    with inv te s' show ?thesis by (intro names_inv_tracker) (auto simp: inv_after(3) [OF ti])
  next
    case (MarkBusy n x k)
    with st have s': "s_tracker s' = snd (markBusy n x (s_tracker s))" "log s' = log s" "ever s' = ever s"
      by (auto split: prod.splits)
    have "tracked s' = tracked s" unfolding tracked_def s' by (rule dom_after(4) [OF ti])
    with inv te s' show ?thesis by (intro names_inv_tracker) (auto simp: inv_after(4) [OF ti])
  next
    case (MarkForTermination n k)
    with st have s': "s_tracker s' = snd (markForTermination n (s_tracker s))" "log s' = log s" "ever s' = ever s"
      by (auto split: prod.splits)
    have "tracked s' = tracked s" unfolding tracked_def s' by (rule dom_after(5) [OF ti])
    with inv te s' show ?thesis by (intro names_inv_tracker) (auto simp: inv_after(5) [OF ti])
  next
    case (IncusLaunch c q k)
    with kn have "lr_Name q \<in> ever s" by (auto simp: knows_def)
    with st IncusLaunch inv show ?thesis
      by (intro names_inv_quiet) (auto simp: record_call_def launched_def split: reply.splits)
  qed (rule names_inv_quiet [OF inv]; use st in \<open>auto simp: Let_def record_call_def launched_def
      split: if_splits reply.splits\<close>)+
qed

lemma knows_after:
  assumes st: "step code r p s = Some (s', p', new)" and inv: "names_inv old s" "names_step s s'"
    and list: "\<And>c pr k is. p = IncusList c pr k \<Longrightarrow> r = ListReply (Inr is) \<Longrightarrow> own_names o1 is \<subseteq> ever s"
    and kn: "knows o1 s p" and sp: "\<And>s. knows o1 s (spawn_body code) \<and> knows o1 s (loop_head code)"
  shows "knows o1 s' p' \<and> list_all (knows o1 s') new"
proof -
  have ti: "tracker_inv (s_tracker s)" and te: "tracked s \<subseteq> ever s"
    using inv by (simp_all add: names_inv_def)
  obtain G E where k: "tgt o1 G E p" "E \<subseteq> ever s" "G \<subseteq> ever s - tracked s"
    using kn by (auto simp: knows_def)
  have E: "E \<subseteq> ever s'" and G: "G \<subseteq> ever s' - tracked s'"
    using k(2,3) inv(2) by (auto simp: names_step_def)
  show ?thesis
  proof (cases p)
    case Again
    with st sp show ?thesis by simp
  next
    case (TrackAdd t q)
    with st k E G show ?thesis by (auto intro!: knowsI [of o1 G "insert (tr_Name t) E"])
  next
    case (TrackRemove n q)
    with st have s': "s_tracker s' = tracker_remove n (s_tracker s)" "ever s' = ever s" "p' = q" "new = []" by auto
    have "tracked s' = tracked s - {n}" unfolding tracked_def s' by (rule dom_after(2) [OF ti])
    then have "(if n \<in> E then insert n G else G) \<subseteq> ever s' - tracked s'" using k(2) E G by auto
    with k(1) E s'(3,4) TrackRemove show ?thesis by (simp only: tgt.simps list.pred_inject) (rule conjI, rule knowsI, simp_all)
  next
    case (TrackGet n k')
    show ?thesis
    proof (cases "tracker_get n (s_tracker s)")
      case None
      with st k E G TrackGet show ?thesis by (auto intro!: knowsI [of o1 G E])
    next
      case (Some v)
      then have "n \<in> ever s" using te by (auto simp: tracker_get_def tracked_def)
      with Some st k E G TrackGet show ?thesis by (auto intro!: knowsI [of o1 G "insert n E"])
    qed
  next
    case (TrackNames k')
    with st k E G show ?thesis
      by (auto simp: names_def tracked_def dom_map_of_conv_image_fst
          intro!: knowsI [of o1 "G \<union> (E - names (s_tracker s))" E])
  next
    case (TrackSnapshot k')
    with st obtain xs where r: "r = Order xs" by (cases r) auto
    with st TrackSnapshot have xs: "mset xs = mset (snapshot (s_tracker s))" and s': "s' = s" "p' = k' xs" "new = []"
      by (auto split: if_splits)
    from snapshot_tracked [OF ti xs] te have "tr_Name ` set xs \<subseteq> ever s" by (simp add: tracked_def)
    with k TrackSnapshot show ?thesis
      unfolding s' by (auto intro!: knowsI [of o1 G "E \<union> tr_Name ` set xs"])
  next
    case (IncusList c pr k')
    with st obtain v where v: "r = ListReply v" "p' = k' v" "new = []" by (auto split: reply.splits)
    show ?thesis
    proof (cases v)
      case (Inl e)
      with v k IncusList E G show ?thesis by (auto intro!: knowsI [of o1 G E])
    next
      case (Inr xs)
      with v k IncusList E G list [OF IncusList, of xs] inv(2) show ?thesis
        by (auto simp: names_step_def intro!: knowsI [of o1 G "E \<union> own_names o1 xs"])
    qed
  next
    case (StartSpawn k')
    with st k E G sp show ?thesis by (auto intro!: knowsI [of o1 G E] split: if_splits)
  next
    case (Go c q)
    with st k(1) have "tgt o1 G E c" "tgt o1 G E p'" "new = [c]" by auto
    then show ?thesis using knowsI [OF _ E G] by simp
  qed (use st k E G in \<open>auto simp: Let_def intro!: knowsI [of o1 G E]
      split: if_splits reply.splits prod.splits\<close>)
qed

lemma targets_inv_thread:
  assumes inv: "targets_inv o1 old y" and A: "trusted_env o1 old (Thread i r) y" and i: "i < length (threads y)"
    and st: "step code r (threads y ! i) (shared y) = Some (s', p', new)" and sp: "\<And>s. knows o1 s (spawn_body code) \<and> knows o1 s (loop_head code)"
  shows "targets_inv o1 old \<lparr>shared = s', threads = (threads y)[i := p'] @ new\<rparr>"
proof -
  have ni: "names_inv old (shared y)" and all: "list_all (knows o1 (shared y)) (threads y)"
    using inv by (simp_all add: targets_inv_def)
  then have kn: "knows o1 (shared y) (threads y ! i)" using i by (simp add: list_all_length)
  have fresh: "tr_Name t \<notin> ever (shared y)" if "threads y ! i = TrackAdd t q" for t q
    using A i that by (simp add: trusted_env_def)
  have list: "own_names o1 xs \<subseteq> ever (shared y)"
    if "threads y ! i = IncusList c pr k" "r = ListReply (Inr xs)" for c pr k xs
    using A i that known_ever [OF inv] by (auto simp: trusted_env_def own_names_def list_all_iff)
  have "names_inv old s' \<and> names_step (shared y) s'" by (rule names_after [OF st ni _ kn]) (rule fresh)
  then have ni': "names_inv old s'" and ns: "names_step (shared y) s'" by blast+
  have "list_all (knows o1 s') (threads y)"
    using all ns by (auto simp: list_all_iff intro: knows_step)
  then show ?thesis
    using knows_after [OF st ni ns list kn sp] ni' by (simp add: targets_inv_def list_all_update)
qed

lemma targets_inv_mono:
  assumes "targets_inv o1 old y" "threads y' = threads y @ ps" "list_all (\<lambda>p. tgt o1 {} {} p) ps"
    and "s_tracker (shared y') = s_tracker (shared y)" "ever (shared y') = ever (shared y)"
    "log (shared y') = log (shared y)"
  shows "targets_inv o1 old y'"
proof -
  let ?s = "shared y'"
  have "names_inv old ?s \<and> names_step (shared y) ?s"
    using assms by (intro names_inv_quiet) (auto simp: targets_inv_def launched_def)
  moreover have "list_all (knows o1 ?s) ps"
    using assms(3) by (auto simp: list_all_iff intro: knowsI)
  ultimately show ?thesis
    using assms(1,2) by (auto simp: targets_inv_def list_all_iff intro: knows_step)
qed

lemma targets_inv_step:
  assumes "sys_step o1 l y = Some y'" "targets_inv o1 old y" "trusted_env o1 old l y"
  shows "targets_inv o1 old y'"
proof (cases l)
  case (Thread i r)
  have "knows o1 s (spawn_body (program o1)) \<and> knows o1 s (loop_head (program o1))" for s
    using knowsI [of o1 "{}" "{}", OF tgt_spawnIdleRunner] knowsI [OF tgt_Run] by simp
  with Thread assms targets_inv_thread [of o1 old y i r, where code = "program o1"] show ?thesis by (auto split: if_splits)
next
  case (Desired n)
  with assms(1) show ?thesis
    by (intro targets_inv_mono [OF assms(2), of y' "[HandleDesiredRunnerCount o1 n]"]) (auto simp: tgt_entry)
next
  case (JobStarted e)
  with assms(1) show ?thesis
    by (intro targets_inv_mono [OF assms(2), of y' "[HandleJobStarted e]"]) (auto simp: tgt_entry)
next
  case (JobCompleted e)
  with assms(1) show ?thesis
    by (intro targets_inv_mono [OF assms(2), of y' "[HandleJobCompleted e]"]) (auto simp: tgt_entry)
qed (rule targets_inv_mono [OF assms(2), of y' "[]"];
    use assms(1) in \<open>auto simp: Let_def split: if_splits\<close>)+

interpretation targets: system_invariant o1 "trusted_env o1 old" "init_shared ml ll old" "targets_inv o1 old"
  for o1 old ml ll
proof
  have "knows o1 s (Run o1)" for s using tgt_Run by (rule knowsI) auto
  then show "targets_inv o1 old (init_sys o1 (init_shared ml ll old))" for n
    by (simp add: targets_inv_def names_inv_def init_sys_def init_shared_def tracked_def launched_def
        tracker.inv_empty tracker.lookup_empty newInstanceTracker_def)
      (simp add: tracker_inv_def)
qed (rule targets_inv_step)

lemmas targets_inv_reachable = targets.holds

text \<open>
  C6: in every interleaving, a goroutine about to stop or delete an instance (reaper,
  completed job, deferred termination of a launch, drift sweep) names a runner that is not
  tracked, so never one the orchestrator still counts on, and one this or an earlier process
  has named. The environment is assumed never to draw a runner name twice (the code draws
  four random bytes and does not check) and, in the answer to a list, to have under the tags
  of the class only instances of this or an earlier process of it.
\<close>

theorem kills_only_untracked:
  assumes "New u addr sid old c = Inr (o1, s0)" "limiters_ok c"
    and "reachable o1 (trusted_env o1 old) s0 y"
    and "p \<in> set (threads y)" "kills p = Some n"
  shows "tracker_get n (s_tracker (shared y)) = None \<and> n \<in> ever (shared y)"
proof -
  have "targets_inv o1 old y"
    using New_shape [OF assms(1,2)] targets_inv_reachable assms(3) by metis
  then have "knows o1 (shared y) p" using assms(4) by (auto simp: targets_inv_def list_all_iff)
  with knows_kills [OF _ assms(5)] show ?thesis by (auto simp: tracked_def tracker_get_def)
qed

text \<open>A reaper that finds an instance an earlier process left behind, and is about to stop it.\<close>

definition left_behind :: Instance where
  "left_behind = \<lparr>inst_Name = ''incuse-old'', inst_Description = [], inst_Type = ''virtual-machine'',
     inst_Status = ''Running'', inst_Project = ''incuse'',
     inst_Config = [metaManaged \<mapsto> ''true'', metaScaleSetID \<mapsto> itoa 7]\<rparr>"

theorem kills_only_untracked_witness:
  "\<exists>y p. reachable sample_orch (trusted_env sample_orch {''incuse-old''}) (sample_shared_with {''incuse-old''}) y
     \<and> p \<in> set (threads y) \<and> kills p = Some ''incuse-old''
     \<and> tracker_get ''incuse-old'' (s_tracker (shared y)) = None"
proof -
  let ?old = "{''incuse-old''}" and ?A = "trusted_env sample_orch {''incuse-old''}"
  let ?ls = "[Thread 0 (Choice True), Thread 0 (Clock 0), Thread 0 (Order []), Thread 0 NoReply,
     Thread 0 NoReply, Thread 0 (ListReply (Inr [left_behind])), Thread 0 NoReply,
     Thread 0 (Choice True), Thread 0 NoReply, Thread 1 NoReply]"
  have ok: "limiters_ok sample_cfg" by (simp add: limiters_ok_def sample_cfg_def)
  have own: "is_orphan sample_orch {} left_behind" "o_scaleSetID sample_orch = 7" "inst_Name left_behind = ''incuse-old''"
    by (simp_all add: is_orphan_own own_def left_behind_def sample_orch_def cfg_get_def meta_keys)
  obtain y where y: "run_within sample_orch ?A ?ls (init_sys sample_orch (sample_shared_with ?old)) = Some y"
    "list_ex (\<lambda>p. kills p = Some ''incuse-old'') (threads y)"
    by (simp add: init_sys_def sample_shared_with_def init_shared_def newInstanceTracker_def
      trusted_env_def known_instance_def Run_def reapOnce_def driftSweep_def Let_def snapshot_def names_def own
      ctx_done_def limiter_acquire_def record_call_def own)
  then obtain p where p: "p \<in> set (threads y)" "kills p = Some ''incuse-old''" by (auto simp: list_ex_iff)
  have r: "reachable sample_orch ?A (sample_shared_with ?old) y"
    using run_within_reachable [OF reachable.reach_init y(1)] .
  from kills_only_untracked [OF sample_New_with ok r p] r p show ?thesis by blast
qed

end
