(* ===== verification/Orchestrator_Scenarios.thy ===== *)
theory Orchestrator_Scenarios imports Samples begin

text \<open>
  One interleaving of the reaper with the listener. The reaper decides on a snapshot of the
  tracker and terminates later, so what it knows of a runner can be out of date.
\<close>

definition race_name :: string where "race_name = ''incuse-4vcpu-8gb-20gb-amd64-0a1b2c3d''"

definition race_runner :: trackedRunner where
  "race_runner = tracked_of sample_orch race_name (Some 11) 1000"

text \<open>The same runner once it is idle.\<close>

definition stale_runner :: trackedRunner where
  "stale_runner = race_runner\<lparr>State := StatusIdle, ReadyAt := 4000\<rparr>"

definition late :: time where "late = 11 * minute"

text \<open>
  One runner is registered, launched and idle (goroutine 2); eleven minutes later a reaper
  tick (goroutine 0) takes its snapshot.
\<close>

definition idle_schedule :: "label list" where
  "idle_schedule =
     [Desired 1, Thread 1 NoReply, Thread 1 NoReply,
      Thread 2 (Choice True), Thread 2 (Suffix ''0a1b2c3d''),
      Thread 2 (JITReply (Inr (''jit'', Some 11))), Thread 2 (Clock 1000), Thread 2 NoReply,
      Thread 2 NoReply, Thread 2 NoReply, Thread 2 NoReply, Thread 2 NoReply,
      Thread 2 (Choice True), Thread 2 NoReply, Thread 2 (Clock 2000),
      Thread 2 (LaunchReply (Inr \<lparr>inst_Name = race_name, inst_Description = [], inst_Type = [],
        inst_Status = [], inst_Project = [], inst_Config = (\<lambda>_. None)\<rparr>)),
      Thread 2 (Clock 3000), Thread 2 NoReply, Thread 2 NoReply, Thread 2 (Clock 4000),
      Thread 2 NoReply, Thread 2 NoReply, Thread 2 NoReply]"

definition snapshot_schedule :: "label list" where
  "snapshot_schedule =
     [Thread 0 (Choice True), Thread 0 (Clock late),
      Thread 0 (Order [stale_runner])]"

text \<open>The listener reports a job on the runner, at the same time by the clock.\<close>

definition job_schedule :: "label list" where
  "job_schedule = [JobStarted (Some race_name), Thread 3 (Clock late), Thread 3 NoReply]"

text \<open>Only the reaper runs from here on.\<close>

definition reap_schedule :: "label list" where
  "reap_schedule =
     [Thread 0 (Choice True), Thread 0 NoReply, Thread 4 NoReply, Thread 4 NoReply, Thread 4 NoReply,
      Thread 4 (Clock late), Thread 4 NoReply, Thread 4 NoReply, Thread 4 NoReply, Thread 4 NoReply,
      Thread 4 (ErrReply None)]"

lemma race_facts:
  "UseBakedImage (o_runnerCfg sample_orch)" "ss_Name (o_spec sample_orch) = ''incuse-4vcpu-8gb-20gb-amd64''"
  "o_lower sample_orch = id" "ss_MaxRunners (o_spec sample_orch) = 2"
  "RegistrationTimeout (o_runnerCfg sample_orch) < time_sub late 1000"
  "tr_Name race_runner = race_name" "RunnerID race_runner = 11" "MintedAt race_runner = 1000"
  "State race_runner = StatusLaunching" "\<not> TerminationPending race_runner"
  "race_name \<noteq> []"
  by (simp_all add: sample_defs race_runner_def tracked_of_def runnerRefID_def late_def race_name_def
      minute_def second_def time_sub_def max_int64_def min_int64_def)

lemma race_conts: "LaunchAcquire c k = LaunchAcquire c k" "Go p q = Go p q" "IncusLaunch c r l = IncusLaunch c r l"
  "Select s = Select s" "TrackSnapshot n = TrackSnapshot n" "TrackSize z = TrackSize z"
  "MarkForTermination m f = MarkForTermination m f" "TrackGet g h = TrackGet g h"
  "AskTerminationPending a b = AskTerminationPending a b" "MarkIdle mi t mk = MarkIdle mi t mk"
  by (rule refl)+

lemma idle_run:
  "\<exists>y. sys_run sample_orch idle_schedule (init_sys sample_orch sample_shared) = Some y
     \<and> s_tracker (shared y) = [(race_name, stale_runner)]
     \<and> threads y = [Run sample_orch, Return (Count 1), Return NoValue]
     \<and> launchLimiter (shared y) = \<lparr>chan = 1, capacity = 2, inUse = 0\<rparr> \<and> \<not> crashed (shared y)"
proof -
  obtain ci where ci: "Render (cloud_init_spec sample_orch zero3 ''jit'' race_name) = Inr ci"
    using spawn_render by (auto simp: is_ok_def race_name_def split: sum.splits)
  show ?thesis
    unfolding idle_schedule_def
    by (simp add: run_simps race_facts spawn_name race_name_def [symmetric] ci race_runner_def [symmetric]
      stale_runner_def cong: wait_congs race_conts)
qed

lemma snapshot_run:
  assumes "s_tracker (shared y) = [(race_name, stale_runner)]"
    and "threads y = [Run sample_orch, Return (Count 1), Return NoValue]"
    and "launchLimiter (shared y) = \<lparr>chan = 1, capacity = 2, inUse = 0\<rparr>" "\<not> crashed (shared y)"
  shows "\<exists>k y'. sys_run sample_orch snapshot_schedule y = Some y' \<and> shared y' = shared y
     \<and> threads y' =
         [parallelReap CallerCtx [reapTracked sample_orch CallerCtx stale_runner late] k,
          Return (Count 1), Return NoValue]"
  using assms
  by (simp add: snapshot_schedule_def reapOnce_def snapshot_def eval_nat_numeral
      Run_def del: parallelReap.simps cong: wait_congs race_conts) blast

lemma job_reap_run:
  assumes t: "s_tracker (shared y) = [(race_name, stale_runner)]"
    and th: "threads y =
         [parallelReap CallerCtx [reapTracked sample_orch CallerCtx stale_runner late] k,
          Return (Count 1), Return NoValue]"
    and l: "launchLimiter (shared y) = \<lparr>chan = 1, capacity = 2, inUse = 0\<rparr>" and c: "\<not> crashed (shared y)"
  shows "\<exists>y1 y2. sys_run sample_orch job_schedule y = Some y1
     \<and> tracker_get race_name (s_tracker (shared y1)) =
         Some (stale_runner\<lparr>State := StatusBusy, BusyAt := late\<rparr>)
     \<and> sys_run sample_orch reap_schedule y1 = Some y2
     \<and> hd (log (shared y2)) = CallStop race_name
     \<and> CallMetric (Reap ''registration_timeout'') \<in> set (log (shared y2))"
  using assms race_facts
  by (simp add: stale_runner_def job_schedule_def reap_schedule_def HandleJobStarted_def markBusy_def busy_entry_def
      tracker_get_def reapTracked_def terminateInstance_def markForTermination_def pending_entry_def
      setTracked_def tracker_remove_def tracker_size_def limiter_acquire_def record_call_def Let_def
      eval_nat_numeral cong: wait_congs race_conts)

text \<open>
  C22: the reaper can kill a busy runner for a missed registration. There is a reachable
  state in which a runner has been marked busy at a time \<open>late\<close>, and from which the reaper
  alone, with the clock still at \<open>late\<close>, stops its instance with the reason
  registration_timeout, although the job has used none of its six hours.
\<close>

theorem reaper_can_kill_busy_runner:
  "\<exists>y1 y2 r. reachable sample_orch any_env sample_shared y1
     \<and> tracker_get race_name (s_tracker (shared y1)) = Some r \<and> State r = StatusBusy \<and> BusyAt r = late
     \<and> sys_run sample_orch reap_schedule y1 = Some y2
     \<and> hd (log (shared y2)) = CallStop race_name
     \<and> CallMetric (Reap ''registration_timeout'') \<in> set (log (shared y2))"
proof -
  obtain y where y: "sys_run sample_orch idle_schedule (init_sys sample_orch sample_shared) = Some y"
    "s_tracker (shared y) = [(race_name, stale_runner)]"
    "threads y = [Run sample_orch, Return (Count 1), Return NoValue]"
    "launchLimiter (shared y) = \<lparr>chan = 1, capacity = 2, inUse = 0\<rparr>" "\<not> crashed (shared y)"
    using idle_run by blast
  from snapshot_run [OF y(2-5)] obtain k y' where y':
    "sys_run sample_orch snapshot_schedule y = Some y'" "shared y' = shared y"
    "threads y' =
         [parallelReap CallerCtx [reapTracked sample_orch CallerCtx stale_runner late] k,
          Return (Count 1), Return NoValue]" by blast
  from job_reap_run [of y' k] y y' obtain y1 y2 where e: "sys_run sample_orch job_schedule y' = Some y1"
     "tracker_get race_name (s_tracker (shared y1)) =
         Some (stale_runner\<lparr>State := StatusBusy, BusyAt := late\<rparr>)"
     "sys_run sample_orch reap_schedule y1 = Some y2"
     "hd (log (shared y2)) = CallStop race_name"
     "CallMetric (Reap ''registration_timeout'') \<in> set (log (shared y2))" by auto
  have "reachable sample_orch any_env sample_shared y1"
    using sys_run_reachable [OF sys_run_reachable [OF sys_run_reachable [OF reachable.reach_init y(1)] y'(1)] e(1)] .
  with e show ?thesis by fastforce
qed

end
