(* ===== verification/Orchestrator_Handoff.thy ===== *)
theory Orchestrator_Handoff imports Orchestrator_Pool Orchestrator_Scenarios begin

text \<open>
  Deferred terminations. A runner whose launch is still in flight is not stopped by the
  goroutine that wants it gone: terminateInstance only leaves a mark, and the goroutine of
  the launch has to act on it. This theory shows that the mark is never lost: as long as a
  tracked runner is launching or marked, some goroutine is bound to finish the launch or to
  take the runner out of the tracker.
\<close>

section \<open>Being bound to act\<close>

text \<open>
  \<open>removes n p\<close>: on every path \<open>p\<close> takes \<open>n\<close> out of the tracker, unless it finds a launch
  in flight when it marks it.
\<close>

primrec removes :: "string \<Rightarrow> proc \<Rightarrow> bool" where
  "removes n (Return v) = (False)"
| "removes n Again = False"
| "removes n Crash = (True)"
| "removes n (MintAcquire c k) = (\<forall>x. removes n (k x))"
| "removes n (MintRelease p) = (removes n p)"
| "removes n (LaunchAcquire c k) = (\<forall>x. removes n (k x))"
| "removes n (LaunchRelease p) = (removes n p)"
| "removes n (Reserve target k) = (\<forall>x. removes n (k x))"
| "removes n (InflightDec p) = (removes n p)"
| "removes n (StartSpawn k) = (\<forall>x. removes n (k x))"
| "removes n (TaskDone p) = (removes n p)"
| "removes n (TasksWait p) = (removes n p)"
| "removes n (Go c p) = (removes n p)"
| "removes n (WgDone p) = (removes n p)"
| "removes n (WgWait p) = (removes n p)"
| "removes n (BeginShutdown p) = (removes n p)"
| "removes n (Select k) = (\<forall>x. removes n (k x))"
| "removes n (CtxErr c k) = (\<forall>x. removes n (k x))"
| "removes n (Now k) = (\<forall>x. removes n (k x))"
| "removes n (NameSuffix k) = (\<forall>x. removes n (k x))"
| "removes n (TrackAdd r p) = (removes n p)"
| "removes n (TrackRemove m p) = (m = n \<or> removes n p)"
| "removes n (TrackGet m k) = (\<forall>x. removes n (k x))"
| "removes n (TrackSize k) = (\<forall>x. removes n (k x))"
| "removes n (TrackNames k) = (\<forall>x. removes n (k x))"
| "removes n (TrackSnapshot k) = (\<forall>x. removes n (k x))"
| "removes n (MarkIdle m t k) = (\<forall>x. removes n (k x))"
| "removes n (MarkBusy m t k) = (\<forall>x. removes n (k x))"
| "removes n (MarkForTermination m k) = (if m = n then \<forall>x. x \<noteq> (StatusLaunching, True) \<longrightarrow> removes n (k x) else \<forall>x. removes n (k x))"
| "removes n (AskTerminationPending m k) = (\<forall>x. removes n (k x))"
| "removes n (Resolve c a k) = (\<forall>x. removes n (k x))"
| "removes n (GenerateJIT c m w k) = (\<forall>x. removes n (k x))"
| "removes n (RemoveRunner c j k) = (\<forall>x. removes n (k x))"
| "removes n (IncusLaunch c q k) = (\<forall>x. removes n (k x))"
| "removes n (IncusStop c m k) = (\<forall>x. removes n (k x))"
| "removes n (IncusDelete c m k) = (\<forall>x. removes n (k x))"
| "removes n (IncusList c m k) = (\<forall>x. removes n (k x))"
| "removes n (Metric x p) = (removes n p)"

text \<open>
  \<open>lands n p\<close>: on every path \<open>p\<close> takes \<open>n\<close> out of the tracker or ends its launching state,
  and in the second case removes it if the termination was requested meanwhile.
\<close>

primrec lands :: "string \<Rightarrow> proc \<Rightarrow> bool" where
  "lands n (Return v) = (False)"
| "lands n Again = False"
| "lands n Crash = (True)"
| "lands n (MintAcquire c k) = (\<forall>x. lands n (k x))"
| "lands n (MintRelease p) = (lands n p)"
| "lands n (LaunchAcquire c k) = (\<forall>x. lands n (k x))"
| "lands n (LaunchRelease p) = (lands n p)"
| "lands n (Reserve target k) = (\<forall>x. lands n (k x))"
| "lands n (InflightDec p) = (lands n p)"
| "lands n (StartSpawn k) = (\<forall>x. lands n (k x))"
| "lands n (TaskDone p) = (lands n p)"
| "lands n (TasksWait p) = (lands n p)"
| "lands n (Go c p) = (lands n p)"
| "lands n (WgDone p) = (lands n p)"
| "lands n (WgWait p) = (lands n p)"
| "lands n (BeginShutdown p) = (lands n p)"
| "lands n (Select k) = (\<forall>x. lands n (k x))"
| "lands n (CtxErr c k) = (\<forall>x. lands n (k x))"
| "lands n (Now k) = (\<forall>x. lands n (k x))"
| "lands n (NameSuffix k) = (\<forall>x. lands n (k x))"
| "lands n (TrackAdd r p) = (lands n p)"
| "lands n (TrackRemove m p) = (m = n \<or> lands n p)"
| "lands n (TrackGet m k) = (\<forall>x. lands n (k x))"
| "lands n (TrackSize k) = (\<forall>x. lands n (k x))"
| "lands n (TrackNames k) = (\<forall>x. lands n (k x))"
| "lands n (TrackSnapshot k) = (\<forall>x. lands n (k x))"
| "lands n (MarkIdle m t k) = (if m = n then \<forall>ok. removes n (k (True, ok)) else \<forall>x. lands n (k x))"
| "lands n (MarkBusy m t k) = (\<forall>x. lands n (k x))"
| "lands n (MarkForTermination m k) = (\<forall>x. lands n (k x))"
| "lands n (AskTerminationPending m k) = (\<forall>x. lands n (k x))"
| "lands n (Resolve c a k) = (\<forall>x. lands n (k x))"
| "lands n (GenerateJIT c m w k) = (\<forall>x. lands n (k x))"
| "lands n (RemoveRunner c j k) = (\<forall>x. lands n (k x))"
| "lands n (IncusLaunch c q k) = (\<forall>x. lands n (k x))"
| "lands n (IncusStop c m k) = (\<forall>x. lands n (k x))"
| "lands n (IncusDelete c m k) = (\<forall>x. lands n (k x))"
| "lands n (IncusList c m k) = (\<forall>x. lands n (k x))"
| "lands n (Metric x p) = (lands n p)"

text \<open>\<open>tidy p\<close>: whoever tracks a runner lands it, whoever marks a runner that is not launching removes it.\<close>

primrec tidy :: "proc \<Rightarrow> bool" where
  "tidy (Return v) = (True)"
| "tidy Again = True"
| "tidy Crash = (True)"
| "tidy (MintAcquire c k) = (\<forall>x. tidy (k x))"
| "tidy (MintRelease p) = (tidy p)"
| "tidy (LaunchAcquire c k) = (\<forall>x. tidy (k x))"
| "tidy (LaunchRelease p) = (tidy p)"
| "tidy (Reserve target k) = (\<forall>x. tidy (k x))"
| "tidy (InflightDec p) = (tidy p)"
| "tidy (StartSpawn k) = (\<forall>x. tidy (k x))"
| "tidy (TaskDone p) = (tidy p)"
| "tidy (TasksWait p) = (tidy p)"
| "tidy (Go c p) = (tidy c \<and> tidy p)"
| "tidy (WgDone p) = (tidy p)"
| "tidy (WgWait p) = (tidy p)"
| "tidy (BeginShutdown p) = (tidy p)"
| "tidy (Select k) = (\<forall>x. tidy (k x))"
| "tidy (CtxErr c k) = (\<forall>x. tidy (k x))"
| "tidy (Now k) = (\<forall>x. tidy (k x))"
| "tidy (NameSuffix k) = (\<forall>x. tidy (k x))"
| "tidy (TrackAdd r p) = (lands (tr_Name r) p \<and> tidy p)"
| "tidy (TrackRemove m p) = (tidy p)"
| "tidy (TrackGet m k) = (\<forall>x. tidy (k x))"
| "tidy (TrackSize k) = (\<forall>x. tidy (k x))"
| "tidy (TrackNames k) = (\<forall>x. tidy (k x))"
| "tidy (TrackSnapshot k) = (\<forall>x. tidy (k x))"
| "tidy (MarkIdle m t k) = (\<forall>x. tidy (k x))"
| "tidy (MarkBusy m t k) = (\<forall>x. tidy (k x))"
| "tidy (MarkForTermination m k) = ((\<forall>x. tidy (k x)) \<and> (\<forall>x. x \<noteq> (StatusLaunching, True) \<longrightarrow> removes m (k x)))"
| "tidy (AskTerminationPending m k) = (\<forall>x. tidy (k x))"
| "tidy (Resolve c a k) = (\<forall>x. tidy (k x))"
| "tidy (GenerateJIT c m w k) = (\<forall>x. tidy (k x))"
| "tidy (RemoveRunner c j k) = (\<forall>x. tidy (k x))"
| "tidy (IncusLaunch c q k) = (\<forall>x. tidy (k x))"
| "tidy (IncusStop c m k) = (\<forall>x. tidy (k x))"
| "tidy (IncusDelete c m k) = (\<forall>x. tidy (k x))"
| "tidy (IncusList c m k) = (\<forall>x. tidy (k x))"
| "tidy (Metric x p) = (tidy p)"

section \<open>The program's goroutines\<close>

lemma removes_setTracked [simp]: "removes n (setTracked k) = removes n k"
  by (simp add: setTracked_def)

lemma lands_setTracked [simp]: "lands n (setTracked k) = lands n k"
  by (simp add: setTracked_def)

lemma tidy_setTracked [simp]: "tidy (setTracked k) = tidy k"
  by (simp add: setTracked_def)

lemma tidy_removeRunnerByID [simp]: "tidy k \<Longrightarrow> tidy (removeRunnerByID c n k)"
  by (simp add: removeRunnerByID_def)

lemma tidy_removeRunnerBestEffort [simp]: "tidy k \<Longrightarrow> tidy (removeRunnerBestEffort c ref k)"
  by (simp add: removeRunnerBestEffort_def split: option.splits)

lemma removes_terminateInstance [simp]: "removes n (terminateInstance c n k)"
  by (auto simp: terminateInstance_def Let_def split: option.splits)

lemma tidy_terminateInstance [simp]: "tidy k \<Longrightarrow> tidy (terminateInstance c n k)"
  by (auto simp: terminateInstance_def Let_def split: option.splits)

lemma lands_launch: "lands (tr_Name tr) (launch c req tr k)"
  by (auto simp: launch_def split: sum.splits)

lemma tidy_launch [simp]: "tidy k \<Longrightarrow> tidy (launch c req tr k)"
  by (simp add: launch_def split: sum.splits)

lemma tidy_spawn_mint [simp]: "tidy (spawn_mint o1 rel)"
  by (auto simp: spawn_mint_def spawn_tail_def Let_def lands_launch split: option.splits sum.splits)

lemma tidy_spawnIdleRunner: "tidy (spawnIdleRunner o1)"
  by (simp add: spawnIdleRunner_def split: sum.splits)

lemma tidy_spawn_loop: "tidy k \<Longrightarrow> tidy (spawn_loop n k)"
  by (induction n) auto

lemma tidy_parallelReap:
  "\<forall>f \<in> set fs. \<forall>k. tidy k \<longrightarrow> tidy (f k) \<Longrightarrow> tidy k \<Longrightarrow> tidy (parallelReap c fs k)"
  by (induction fs) auto

lemma tidy_reapOnce: "tidy k \<Longrightarrow> tidy (reapOnce o1 c k)"
  by (auto simp: reapOnce_def reapTracked_def driftSweep_def Let_def intro!: tidy_parallelReap
      split: runnerState.splits sum.splits)

lemma tidy_Run: "tidy (Run o1)"
  by (auto simp: Run_def run_shutdown_def intro: tidy_reapOnce)

lemma tidy_code: "tidy (spawn_body (program o1)) \<and> tidy (loop_head (program o1))"
  by (simp add: tidy_spawnIdleRunner tidy_Run)

lemma tidy_handlers:
  "tidy (HandleDesiredRunnerCount o1 n)" "tidy (HandleJobStarted e)" "tidy (HandleJobCompleted e)"
  by (simp_all add: HandleDesiredRunnerCount_def HandleJobStarted_def HandleJobCompleted_def Let_def
      tidy_spawn_loop split: option.splits)

section \<open>The invariant\<close>

definition unfinished :: "trackedRunner \<Rightarrow> bool" where
  "unfinished r \<longleftrightarrow> State r = StatusLaunching \<or> TerminationPending r"

text \<open>Someone is bound to act: on a launching runner a goroutine that lands it.\<close>

definition bound_to :: "string \<Rightarrow> trackedRunner \<Rightarrow> proc \<Rightarrow> bool" where
  "bound_to n r p \<longleftrightarrow> lands n p \<or> (State r \<noteq> StatusLaunching \<and> removes n p)"

definition handoff_inv :: "sys \<Rightarrow> bool" where
  "handoff_inv y \<longleftrightarrow> list_all tidy (threads y) \<and> tracker_inv (s_tracker (shared y))
     \<and> (crashed (shared y)
        \<or> (\<forall>n r. map_of (s_tracker (shared y)) n = Some r \<longrightarrow> unfinished r \<longrightarrow>
             (\<exists>p \<in> set (threads y). bound_to n r p)))"

lemma step_tidy:
  "step code r p s = Some (s', p', new) \<Longrightarrow> tidy p \<Longrightarrow> tidy (spawn_body code) \<and> tidy (loop_head code) \<Longrightarrow> tidy p' \<and> list_all tidy new"
  by (cases p) (auto simp: Let_def split: if_splits reply.splits prod.splits)

lemma step_tracker_inv:
  "step code r p s = Some (s', p', new) \<Longrightarrow> tracker_inv (s_tracker s) \<Longrightarrow> tracker_inv (s_tracker s')"
  by (cases p) (auto simp: Let_def record_call_def tracker.inv_add tracker.inv_remove tracker_inv_entry
      markIdle_def markBusy_def markForTermination_def idle_entry_def busy_entry_def pending_entry_def
      split: if_splits reply.splits prod.splits option.splits)

text \<open>A step of \<open>p\<close> that leaves \<open>n\<close> unfinished.\<close>

definition kept :: "string \<Rightarrow> tracker \<Rightarrow> trackedRunner \<Rightarrow> proc \<Rightarrow> proc \<Rightarrow> bool" where
  "kept n t r' p p' \<longleftrightarrow>
     (\<exists>r. map_of t n = Some r \<and> unfinished r \<and> (State r' = StatusLaunching \<longrightarrow> State r = StatusLaunching)
        \<and> (bound_to n r p \<longrightarrow> bound_to n r' p'))"

lemmas tracker_lookups = tracker_add_def tracker_remove_def update_conv' delete_conv' map_of_map_entry

lemma keptI:
  "map_of t n = Some r \<Longrightarrow> unfinished r' \<Longrightarrow> (lands n p \<Longrightarrow> lands n p') \<Longrightarrow> (removes n p \<Longrightarrow> removes n p') \<Longrightarrow>
     r' = r \<Longrightarrow> kept n t r' p p'"
  by (auto simp: kept_def bound_to_def)

lemma step_unfinished:
  assumes st: "step code r p s = Some (s', p', new)" and td: "tidy p" and nc: "\<not> crashed s'"
    and m: "map_of (s_tracker s') n = Some r'" "unfinished r'"
  shows "bound_to n r' p' \<or> kept n (s_tracker s) r' p p'"
proof (cases p)
  case (TrackAdd x q)
  with st td m show ?thesis
    by (auto simp: tracker_lookups bound_to_def kept_def split: if_splits)
next
  case (TrackRemove x q)
  with st td m show ?thesis
    by (auto simp: tracker_lookups bound_to_def kept_def split: if_splits)
next
  case (MarkIdle x t k)
  with st td m show ?thesis
    by (auto simp: markIdle_def tracker_lookups bound_to_def kept_def idle_entry_def unfinished_def
        split: if_splits option.splits)
next
  case (MarkBusy x t k)
  with st td m show ?thesis
    by (auto simp: markBusy_def tracker_lookups bound_to_def kept_def busy_entry_def unfinished_def
        split: if_splits option.splits)
next
  case (MarkForTermination x k)
  with st td m show ?thesis
    by (auto simp: markForTermination_def tracker_lookups bound_to_def kept_def pending_entry_def
        unfinished_def split: if_splits option.splits)
qed (use st m nc in \<open>auto simp: Let_def record_call_def intro!: keptI split: if_splits reply.splits\<close>)

lemma bound_to_kept:
  "bound_to n r q \<Longrightarrow> (State r' = StatusLaunching \<longrightarrow> State r = StatusLaunching) \<Longrightarrow> bound_to n r' q"
  by (auto simp: bound_to_def)

lemma handoff_inv_thread:
  assumes inv: "handoff_inv y" and i: "i < length (threads y)" "\<not> crashed (shared y)"
    and st: "step code r (threads y ! i) (shared y) = Some (s', p', new)" and sp: "tidy (spawn_body code) \<and> tidy (loop_head code)"
  shows "handoff_inv \<lparr>shared = s', threads = (threads y)[i := p'] @ new\<rparr>"
proof -
  let ?p = "threads y ! i" and ?ts = "(threads y)[i := p'] @ new"
  have td: "list_all tidy (threads y)" and tp: "tidy ?p"
    using inv i(1) by (auto simp: handoff_inv_def list_all_length)
  have "\<exists>q \<in> set ?ts. bound_to n x' q"
    if m: "map_of (s_tracker s') n = Some x'" "unfinished x'" and nc: "\<not> crashed s'" for n x'
  proof (cases "bound_to n x' p'")
    case True
    then show ?thesis using i(1) by (auto simp: set_update_memI)
  next
    case False
    with step_unfinished [OF st tp nc m] obtain x where x: "map_of (s_tracker (shared y)) n = Some x"
      "unfinished x" "State x' = StatusLaunching \<longrightarrow> State x = StatusLaunching" "\<not> bound_to n x ?p"
      by (auto simp: kept_def)
    with inv i(2) obtain q where q: "q \<in> set (threads y)" "bound_to n x q" by (auto simp: handoff_inv_def)
    then obtain h where h: "h < length (threads y)" "q = threads y ! h" by (auto simp: in_set_conv_nth)
    with q(2) x(4) have "h \<noteq> i" by auto
    with h have "q \<in> set ?ts" by (auto simp: in_set_conv_nth intro!: exI [of _ h])
    with bound_to_kept [OF q(2) x(3)] show ?thesis by blast
  qed
  moreover have "list_all tidy ?ts"
    using list_all_update [OF td] step_tidy [OF st tp sp] by auto
  moreover have "tracker_inv (s_tracker s')" using step_tracker_inv [OF st] inv by (simp add: handoff_inv_def)
  ultimately show ?thesis by (auto simp: handoff_inv_def)
qed

lemma handoff_inv_mono:
  assumes "handoff_inv y" "s_tracker (shared y') = s_tracker (shared y)" "crashed (shared y') = crashed (shared y)"
    and "set (threads y) \<subseteq> set (threads y')" "list_all tidy (threads y')"
  shows "handoff_inv y'"
  using assms unfolding handoff_inv_def by auto (meson subsetD)

lemma handoff_inv_step:
  assumes "sys_step o1 l y = Some y'" "handoff_inv y"
  shows "handoff_inv y'"
proof (cases l)
  case (Thread i r)
  with assms handoff_inv_thread [OF assms(2) _ _ _ tidy_code] show ?thesis
    by (auto split: if_splits)
qed (use assms in \<open>auto simp: tidy_handlers Let_def handoff_inv_def [of y] split: if_splits
    intro!: handoff_inv_mono [OF assms(2)]\<close>)

interpretation handoff: system_invariant o1 A "init_shared ml ll old" handoff_inv for o1 A ml ll old
proof
  show "handoff_inv (init_sys o1 (init_shared ml ll old))" for n
    using tidy_Run [of o1]
    by (simp add: handoff_inv_def init_sys_def init_shared_def tracker.inv_empty newInstanceTracker_def
        tracker_inv_def)
qed (rule handoff_inv_step)

lemmas handoff_inv_reachable = handoff.holds

lemma handoff_quiescent:
  assumes "New u addr sid old c = Inr (o1, s0)" "limiters_ok c" "reachable o1 A s0 y"
    and "\<not> crashed (shared y)" "list_all returned (threads y)"
    and "tracker_get n (s_tracker (shared y)) = Some r"
  shows "State r \<noteq> StatusLaunching \<and> \<not> TerminationPending r"
proof (rule ccontr)
  assume "\<not> ?thesis"
  then have "unfinished r" by (auto simp: unfinished_def)
  moreover have "handoff_inv y"
    using New_shape [OF assms(1,2)] handoff_inv_reachable assms(3) by metis
  ultimately obtain p where "p \<in> set (threads y)" "bound_to n r p"
    using assms(4,6) by (auto simp: handoff_inv_def tracker_get_def)
  then have "returned p" "lands n p \<or> removes n p"
    using assms(5) by (auto simp: list_all_iff bound_to_def)
  then show False by (cases p) auto
qed

text \<open>
  C9: a termination request is never lost. When every goroutine has returned, no tracked
  runner is still launching or marked for termination: a runner whose job ended (or whose
  time ran out) while its launch was in flight has been taken out of the tracker by the
  goroutine of the launch, and every launch was brought to an end.
\<close>

theorem termination_never_lost:
  assumes "New u addr sid old c = Inr (o1, s0)" "limiters_ok c" "reachable o1 A s0 y"
    and "\<not> crashed (shared y)" "list_all returned (threads y)"
  shows "\<forall>r \<in> set (snapshot (s_tracker (shared y))). State r \<noteq> StatusLaunching \<and> \<not> TerminationPending r"
proof
  fix r
  assume "r \<in> set (snapshot (s_tracker (shared y)))"
  then obtain n where n: "(n, r) \<in> set (s_tracker (shared y))" by (auto simp: snapshot_def)
  have "handoff_inv y"
    using New_shape [OF assms(1,2)] handoff_inv_reachable assms(3) by metis
  with n have "tracker_get n (s_tracker (shared y)) = Some r"
    by (simp add: handoff_inv_def tracker_inv_def tracker_get_def)
  from handoff_quiescent [OF assms this] show "State r \<noteq> StatusLaunching \<and> \<not> TerminationPending r" .
qed

section \<open>Witness\<close>

text \<open>
  The job of a runner is reported complete (goroutine 3) while its launch is in flight; the
  goroutine of the launch finds the mark when the launch returns, and stops the runner.
\<close>

definition deferred_schedule :: "label list" where
  "deferred_schedule =
     [Desired 1, Thread 1 NoReply, Thread 1 NoReply,
      Thread 2 (Choice True), Thread 2 (Suffix ''0a1b2c3d''),
      Thread 2 (JITReply (Inr (''jit'', Some 11))), Thread 2 (Clock 1000), Thread 2 NoReply,
      Thread 2 NoReply, Thread 2 NoReply, Thread 2 NoReply, Thread 2 NoReply,
      Thread 2 (Choice True), Thread 2 NoReply, Thread 2 (Clock 2000),
      JobCompleted (Some race_name), Thread 3 NoReply, Thread 3 NoReply, Thread 3 NoReply,
      Thread 2 (LaunchReply (Inr \<lparr>inst_Name = race_name, inst_Description = [], inst_Type = [],
        inst_Status = [], inst_Project = [], inst_Config = (\<lambda>_. None)\<rparr>)),
      Thread 2 (Clock 3000), Thread 2 NoReply, Thread 2 NoReply, Thread 2 (Clock 4000),
      Thread 2 NoReply, Thread 2 NoReply, Thread 2 NoReply, Thread 2 (Clock 5000), Thread 2 NoReply,
      Thread 2 NoReply, Thread 2 NoReply, Thread 2 NoReply, Thread 2 (ErrReply None),
      Thread 2 (ErrReply None), Thread 2 NoReply, Thread 2 (ErrReply None), Thread 2 NoReply, Thread 2 NoReply,
      CancelCaller, Thread 0 (Choice False), Thread 0 NoReply, Thread 0 NoReply]"

lemma race_request: "lr_Name (buildLaunchRequest (launch_inputs sample_orch race_name ci t)) = race_name"
  by (simp add: buildLaunchRequest_def Let_def launch_inputs_def)

lemma deferred_run:
  "\<exists>y. sys_run sample_orch deferred_schedule (init_sys sample_orch sample_shared) = Some y
     \<and> list_all returned (threads y) \<and> \<not> crashed (shared y)
     \<and> CallStop race_name \<in> set (log (shared y)) \<and> CallLaunch race_name True \<in> set (log (shared y))"
proof -
  obtain ci where ci: "Render (cloud_init_spec sample_orch zero3 ''jit'' race_name) = Inr ci"
    using spawn_render by (auto simp: is_ok_def race_name_def split: sum.splits)
  show ?thesis
    unfolding deferred_schedule_def
    by (simp add: run_simps race_facts spawn_name race_name_def [symmetric] ci race_runner_def [symmetric]
      HandleJobCompleted_def terminateInstance_def markForTermination_def is_ok_def race_request pending_entry_def
      tracker_get_def tracker_remove_def removeRunnerByID_def Run_def run_shutdown_def ctx_done_def
      cong: wait_congs race_conts)
qed

theorem termination_never_lost_witness:
  "\<exists>y. reachable sample_orch any_env sample_shared y \<and> CallStop race_name \<in> set (log (shared y))
     \<and> (\<forall>r \<in> set (snapshot (s_tracker (shared y))). State r \<noteq> StatusLaunching \<and> \<not> TerminationPending r)"
proof -
  have ok: "limiters_ok sample_cfg" by (simp add: limiters_ok_def sample_cfg_def)
  obtain y where y: "sys_run sample_orch deferred_schedule (init_sys sample_orch sample_shared) = Some y"
    "list_all returned (threads y)" "\<not> crashed (shared y)" "CallStop race_name \<in> set (log (shared y))"
    using deferred_run by blast
  have r: "reachable sample_orch any_env sample_shared y"
    using sys_run_reachable [OF reachable.reach_init y(1)] .
  from termination_never_lost [OF sample_New ok r y(3,2)] y(4) r show ?thesis by blast
qed

end
