(* ===== verification/Recorder.thy ===== *)
theory Recorder imports Goroutine begin

text \<open>
  internal/observability/recorder.go: the metrics. The Prometheus client is outside the
  repository; what the recorder does is the list of calls it makes on it, in order. Gauge
  values are the integers the code converts to float64, observations the durations it takes
  the seconds of.
\<close>

section \<open>The collectors\<close>

text \<open>The fields of the Recorder struct.\<close>

datatype collector =
    RunnersSpawned
  | JobsStarted
  | JobsCompleted
  | Launches
  | Reaps
  | LaunchDurations
  | RunnerLifetimes
  | TrackedInstances
  | DesiredRunners
  | StatAvailableJobs
  | StatAcquiredJobs
  | StatAssignedJobs
  | StatRunningJobs
  | StatRegisteredRunners
  | StatBusyRunners
  | StatIdleRunners
  | BuildInfo

datatype vec_kind = CounterVec | GaugeVec | HistogramVec "int list"

record vec =
  v_kind :: vec_kind
  v_namespace :: string
  v_subsystem :: string
  v_name :: string
  v_labels :: "string list"

definition scale_set_label :: string where "scale_set_label = ''scale_set''"

text \<open>A vector of the incuse namespace without a subsystem; newStatGauge.\<close>

definition plain_vec :: "vec_kind \<Rightarrow> string \<Rightarrow> string list \<Rightarrow> vec" where
  "plain_vec k n ls =
     \<lparr>v_kind = k, v_namespace = ''incuse'', v_subsystem = [], v_name = n, v_labels = ls\<rparr>"

definition newStatGauge :: "string \<Rightarrow> vec" where
  "newStatGauge n =
     \<lparr>v_kind = GaugeVec, v_namespace = ''incuse'', v_subsystem = ''scaleset'', v_name = n,
      v_labels = [scale_set_label]\<rparr>"

text \<open>What New passes to the constructors of the vectors.\<close>

fun vec_of :: "collector \<Rightarrow> vec" where
  "vec_of RunnersSpawned = plain_vec CounterVec ''runners_spawned_total'' [scale_set_label]"
| "vec_of JobsStarted = plain_vec CounterVec ''jobs_started_total'' [scale_set_label]"
| "vec_of JobsCompleted = plain_vec CounterVec ''jobs_completed_total'' [scale_set_label, ''result'']"
| "vec_of Launches = plain_vec CounterVec ''launches_total'' [scale_set_label, ''result'']"
| "vec_of Reaps = plain_vec CounterVec ''reaps_total'' [scale_set_label, ''reason'']"
| "vec_of LaunchDurations =
     plain_vec (HistogramVec [1, 2, 5, 10, 20, 30, 60, 120, 300]) ''launch_duration_seconds'' [scale_set_label]"
| "vec_of RunnerLifetimes =
     plain_vec (HistogramVec [30, 60, 120, 300, 600, 1800, 3600, 7200, 21600]) ''runner_lifetime_seconds''
       [scale_set_label]"
| "vec_of TrackedInstances = plain_vec GaugeVec ''tracked_instances'' [scale_set_label]"
| "vec_of DesiredRunners = plain_vec GaugeVec ''desired_runners'' [scale_set_label]"
| "vec_of StatAvailableJobs = newStatGauge ''total_available_jobs''"
| "vec_of StatAcquiredJobs = newStatGauge ''total_acquired_jobs''"
| "vec_of StatAssignedJobs = newStatGauge ''total_assigned_jobs''"
| "vec_of StatRunningJobs = newStatGauge ''total_running_jobs''"
| "vec_of StatRegisteredRunners = newStatGauge ''total_registered_runners''"
| "vec_of StatBusyRunners = newStatGauge ''total_busy_runners''"
| "vec_of StatIdleRunners = newStatGauge ''total_idle_runners''"
| "vec_of BuildInfo = plain_vec GaugeVec ''build_info'' [''version'', ''commit'']"

section \<open>Calls on the client library\<close>

text \<open>Every call but the registration begins with WithLabelValues on a vector.\<close>

datatype prom_call =
    Touch collector "string list"
  | Inc collector "string list"
  | SetTo collector "string list" int
  | Observe collector "string list" duration
  | MustRegister "collector list"

definition recorder_New :: "string \<Rightarrow> string \<Rightarrow> prom_call list" where
  "recorder_New version commit =
     [SetTo BuildInfo [version, commit] 1,
      MustRegister [RunnersSpawned, JobsStarted, JobsCompleted, Launches, Reaps, LaunchDurations,
        RunnerLifetimes, TrackedInstances, DesiredRunners, StatAvailableJobs, StatAcquiredJobs,
        StatAssignedJobs, StatRunningJobs, StatRegisteredRunners, StatBusyRunners, StatIdleRunners,
        BuildInfo]]"

text \<open>ForScaleSet; a ScaleSetRecorder is known by its name.\<close>

definition ForScaleSet :: "string \<Rightarrow> prom_call list" where
  "ForScaleSet name =
     map (\<lambda>c. Touch c [name])
       [TrackedInstances, DesiredRunners, StatAvailableJobs, StatAcquiredJobs, StatAssignedJobs,
        StatRunningJobs, StatRegisteredRunners, StatBusyRunners, StatIdleRunners]"

record statistic =
  TotalAvailableJobs :: int
  TotalAcquiredJobs :: int
  TotalAssignedJobs :: int
  TotalRunningJobs :: int
  TotalRegisteredRunners :: int
  TotalBusyRunners :: int
  TotalIdleRunners :: int

text \<open>
  The methods of ScaleSetRecorder: the hooks of the upstream listener (a nil event is
  \<open>None\<close>, a completed job is known by its result), and those of the orchestrator.
\<close>

definition RecordStatistics :: "string \<Rightarrow> statistic option \<Rightarrow> prom_call list" where
  "RecordStatistics name s =
     (case s of None \<Rightarrow> []
      | Some s \<Rightarrow>
         [SetTo StatAvailableJobs [name] (TotalAvailableJobs s),
          SetTo StatAcquiredJobs [name] (TotalAcquiredJobs s),
          SetTo StatAssignedJobs [name] (TotalAssignedJobs s),
          SetTo StatRunningJobs [name] (TotalRunningJobs s),
          SetTo StatRegisteredRunners [name] (TotalRegisteredRunners s),
          SetTo StatBusyRunners [name] (TotalBusyRunners s),
          SetTo StatIdleRunners [name] (TotalIdleRunners s)])"

definition RecordJobStarted :: "string \<Rightarrow> prom_call list" where
  "RecordJobStarted name = [Inc JobsStarted [name]]"

definition RecordJobCompleted :: "string \<Rightarrow> string option \<Rightarrow> prom_call list" where
  "RecordJobCompleted name event =
     (let outcome = (case event of None \<Rightarrow> ''unknown'' | Some r \<Rightarrow> if r = [] then ''unknown'' else r) in
      [Inc JobsCompleted [name, outcome]])"

definition RecordDesiredRunners :: "string \<Rightarrow> int \<Rightarrow> prom_call list" where
  "RecordDesiredRunners name n = [SetTo DesiredRunners [name] n]"

fun record_metric :: "string \<Rightarrow> metric \<Rightarrow> prom_call list" where
  "record_metric name RunnerSpawned = [Inc RunnersSpawned [name]]"
| "record_metric name LaunchOK = [Inc Launches [name, ''ok'']]"
| "record_metric name LaunchFail = [Inc Launches [name, ''fail'']]"
| "record_metric name (LaunchDuration d) = [Observe LaunchDurations [name] d]"
| "record_metric name (RunnerLifetime d) = [Observe RunnerLifetimes [name] d]"
| "record_metric name (Reap reason) = [Inc Reaps [name, reason]]"
| "record_metric name (SetTrackedInstances n) = [SetTo TrackedInstances [name] (int n)]"

text \<open>noopMetrics, what an orchestrator without a recorder uses.\<close>

definition noopMetrics :: "metric \<Rightarrow> prom_call list" where "noopMetrics m = []"

datatype observation =
    Statistics "statistic option"
  | ObserveJobStarted
  | ObserveJobCompleted "string option"
  | ObserveDesired int
  | Hook metric

fun observe :: "string \<Rightarrow> observation \<Rightarrow> prom_call list" where
  "observe name (Statistics s) = RecordStatistics name s"
| "observe name ObserveJobStarted = RecordJobStarted name"
| "observe name (ObserveJobCompleted e) = RecordJobCompleted name e"
| "observe name (ObserveDesired n) = RecordDesiredRunners name n"
| "observe name (Hook m) = record_metric name m"

text \<open>
  The methods of Recorder itself: each makes a recorder for the empty class name and calls
  the method of the same name on it.
\<close>

definition Recorder_RecordStatistics :: "statistic option \<Rightarrow> prom_call list" where
  "Recorder_RecordStatistics s = ForScaleSet [] @ RecordStatistics [] s"

definition Recorder_RecordJobStarted :: "prom_call list" where
  "Recorder_RecordJobStarted = ForScaleSet [] @ RecordJobStarted []"

definition Recorder_RecordJobCompleted :: "string option \<Rightarrow> prom_call list" where
  "Recorder_RecordJobCompleted event = ForScaleSet [] @ RecordJobCompleted [] event"

definition Recorder_RecordDesiredRunners :: "int \<Rightarrow> prom_call list" where
  "Recorder_RecordDesiredRunners n = ForScaleSet [] @ RecordDesiredRunners [] n"

text \<open>RunnerSpawned, LaunchOK, LaunchFail, LaunchDuration, RunnerLifetime, Reap, SetTrackedInstances.\<close>

definition Recorder_metric :: "metric \<Rightarrow> prom_call list" where
  "Recorder_metric m = ForScaleSet [] @ record_metric [] m"

text \<open>All of them, by what is observed.\<close>

fun recorder_observe :: "observation \<Rightarrow> prom_call list" where
  "recorder_observe (Statistics s) = Recorder_RecordStatistics s"
| "recorder_observe ObserveJobStarted = Recorder_RecordJobStarted"
| "recorder_observe (ObserveJobCompleted e) = Recorder_RecordJobCompleted e"
| "recorder_observe (ObserveDesired n) = Recorder_RecordDesiredRunners n"
| "recorder_observe (Hook m) = Recorder_metric m"

definition Discard :: "prom_call list" where "Discard = recorder_New [] []"

section \<open>What the library requires\<close>

text \<open>
  WithLabelValues panics unless it gets a value for every label of the vector; the methods
  of a vector are those of its kind; MustRegister panics when two collectors have one fully
  qualified name.
\<close>

fun well_labelled :: "prom_call \<Rightarrow> bool" where
  "well_labelled (Touch c ls) = (length ls = length (v_labels (vec_of c)))"
| "well_labelled (Inc c ls) = (length ls = length (v_labels (vec_of c)) \<and> v_kind (vec_of c) = CounterVec)"
| "well_labelled (SetTo c ls n) = (length ls = length (v_labels (vec_of c)) \<and> v_kind (vec_of c) = GaugeVec)"
| "well_labelled (Observe c ls d) =
     (length ls = length (v_labels (vec_of c)) \<and> (\<exists>bs. v_kind (vec_of c) = HistogramVec bs))"
| "well_labelled (MustRegister cs) = True"

lemmas vec_defs = plain_vec_def newStatGauge_def scale_set_label_def

lemmas record_defs = RecordStatistics_def RecordJobStarted_def RecordJobCompleted_def
  RecordDesiredRunners_def ForScaleSet_def Let_def

lemma observe_well_labelled: "list_all well_labelled (observe name x)"
proof (cases x)
  case (Hook m)
  then show ?thesis by (cases m) (simp_all add: vec_defs)
qed (simp_all add: record_defs vec_defs split: option.splits)

lemma recorder_observe_empty: "recorder_observe x = ForScaleSet [] @ observe [] x"
  by (cases x) (simp_all add: Recorder_RecordStatistics_def Recorder_RecordJobStarted_def
      Recorder_RecordJobCompleted_def Recorder_RecordDesiredRunners_def Recorder_metric_def)

text \<open>
  C40: no observation panics. Whatever is observed, for whatever class, every call the
  recorder makes names as many label values as its vector has labels and is one its vector
  has; and the recorder registers every one of its collectors.
\<close>

theorem recorder_well_labelled:
  "list_all well_labelled (recorder_New version commit @ ForScaleSet name @ observe name x @ recorder_observe x)
   \<and> (\<exists>cs. MustRegister cs \<in> set (recorder_New version commit) \<and> set cs = UNIV)"
proof -
  have "c \<in> set [RunnersSpawned, JobsStarted, JobsCompleted, Launches, Reaps, LaunchDurations,
        RunnerLifetimes, TrackedInstances, DesiredRunners, StatAvailableJobs, StatAcquiredJobs,
        StatAssignedJobs, StatRunningJobs, StatRegisteredRunners, StatBusyRunners, StatIdleRunners,
        BuildInfo]" for c by (cases c) simp_all
  then show ?thesis
    by (auto simp: recorder_New_def ForScaleSet_def recorder_observe_empty observe_well_labelled vec_defs)
qed

text \<open>
  What the library documents of BuildFQName: the non-empty parts, joined by underscores.
\<close>

definition builds_names :: "(string \<Rightarrow> string \<Rightarrow> string \<Rightarrow> string) \<Rightarrow> bool" where
  "builds_names fq \<longleftrightarrow> (\<forall>ns sub n. ns \<noteq> [] \<longrightarrow> n \<noteq> [] \<longrightarrow>
     fq ns sub n = (if sub = [] then ns @ ''_'' @ n else ns @ ''_'' @ sub @ ''_'' @ n))"

definition fq_name :: "(string \<Rightarrow> string \<Rightarrow> string \<Rightarrow> string) \<Rightarrow> collector \<Rightarrow> string" where
  "fq_name fq c = fq (v_namespace (vec_of c)) (v_subsystem (vec_of c)) (v_name (vec_of c))"

text \<open>
  The registration of New cannot panic, and every metric is found under the incuse
  prefix: the fully qualified names of the collectors are pairwise different and begin with
  it.
\<close>

theorem collectors_registered_once:
  assumes "builds_names fq"
  shows "inj (fq_name fq) \<and> (\<forall>c. take 7 (fq_name fq c) = ''incuse_'')
     \<and> (\<forall>cs. MustRegister cs \<in> set (recorder_New version commit) \<longrightarrow> distinct (map (fq_name fq) cs))"
proof -
  have n: "fq_name fq c = ''incuse_'' @ (if v_subsystem (vec_of c) = [] then [] else ''scaleset_'') @ v_name (vec_of c)" for c
    using assms by (cases c) (simp_all add: builds_names_def fq_name_def vec_defs)
  have i: "inj (fq_name fq)"
  proof (rule injI)
    fix a b
    assume "fq_name fq a = fq_name fq b"
    then show "a = b" unfolding n by (cases a; cases b) (simp_all add: vec_defs)
  qed
  have d: "distinct (map (fq_name fq) cs) \<longleftrightarrow> distinct cs" for cs
    by (simp add: distinct_map inj_on_subset [OF i subset_UNIV])
  have "MustRegister cs \<in> set (recorder_New version commit) \<Longrightarrow> distinct cs" for cs
    by (auto simp: recorder_New_def)
  with i show ?thesis unfolding d by (simp add: n)
qed

theorem collectors_registered_once_witness:
  "inj (fq_name (\<lambda>ns sub n. if sub = [] then ns @ ''_'' @ n else ns @ ''_'' @ sub @ ''_'' @ n))"
  by (rule collectors_registered_once [THEN conjunct1]) (simp add: builds_names_def)

section \<open>The classes do not mix\<close>

text \<open>The series a call writes: its vector and its label values.\<close>

fun series :: "prom_call \<Rightarrow> (collector \<times> string list) set" where
  "series (Touch c ls) = {(c, ls)}"
| "series (Inc c ls) = {(c, ls)}"
| "series (SetTo c ls n) = {(c, ls)}"
| "series (Observe c ls d) = {(c, ls)}"
| "series (MustRegister cs) = {}"

definition writes :: "prom_call list \<Rightarrow> (collector \<times> string list) set" where
  "writes cs = (\<Union>c \<in> set cs. series c)"

lemma observe_series: "(c, ls) \<in> writes (ForScaleSet name @ observe name x) \<Longrightarrow> hd ls = name \<and> ls \<noteq> [] \<and> c \<noteq> BuildInfo"
proof (cases x)
  case (Hook m)
  then show "(c, ls) \<in> writes (ForScaleSet name @ observe name x) \<Longrightarrow> ?thesis"
    by (cases m) (auto simp: writes_def ForScaleSet_def)
qed (auto simp: writes_def record_defs split: option.splits)

text \<open>
  Classes do not mix in the metrics: the recorders of two classes never write the same
  time series, whatever they observe, and none of them writes the build information.
\<close>

theorem classes_write_apart:
  assumes "n1 \<noteq> n2"
  shows "writes (ForScaleSet n1 @ concat (map (observe n1) xs))
       \<inter> writes (ForScaleSet n2 @ concat (map (observe n2) ys)) = {}
     \<and> fst ` writes (ForScaleSet n1 @ concat (map (observe n1) xs)) \<subseteq> - {BuildInfo}"
proof -
  have k: "hd ls = n \<and> c \<noteq> BuildInfo" if "(c, ls) \<in> writes (ForScaleSet n @ concat (map (observe n) zs))" for c ls n zs
    using that observe_series [of c ls n "Hook RunnerSpawned"] observe_series [of c ls n]
    by (auto simp: writes_def)
  show ?thesis
  proof (intro conjI equals0I subsetI)
    fix p
    assume "p \<in> writes (ForScaleSet n1 @ concat (map (observe n1) xs)) \<inter> writes (ForScaleSet n2 @ concat (map (observe n2) ys))"
    then show False using k [of "fst p" "snd p" n1 xs] k [of "fst p" "snd p" n2 ys] assms by simp
  next
    fix c
    assume "c \<in> fst ` writes (ForScaleSet n1 @ concat (map (observe n1) xs))"
    then show "c \<in> - {BuildInfo}" using k by force
  qed
qed

theorem classes_write_apart_witness:
  "writes (ForScaleSet ''a'' @ concat (map (observe ''a'') [Hook LaunchOK]))
     \<inter> writes (ForScaleSet ''b'' @ concat (map (observe ''b'') [Hook LaunchOK, ObserveJobStarted])) = {}
   \<and> (Launches, [''a'', ''ok'']) \<in> writes (observe ''a'' (Hook LaunchOK))"
  using classes_write_apart [of "''a''" "''b''" "[Hook LaunchOK]" "[Hook LaunchOK, ObserveJobStarted]"]
  by (simp add: writes_def)

end
