(* ===== verification/Orchestrator_Metrics.thy ===== *)
theory Orchestrator_Metrics imports Orchestrator_Handoff Recorder begin

text \<open>
  The launch counters tell the truth: every answer of Incus to a launch is counted once,
  under its result, on every path and in every interleaving.
\<close>

section \<open>Owing a report\<close>

text \<open>
  \<open>reports a b p\<close>: on every path \<open>p\<close> counts \<open>a\<close> successful and \<open>b\<close> failed launches more than
  it still makes.
\<close>

primrec reports :: "nat \<Rightarrow> nat \<Rightarrow> proc \<Rightarrow> bool" where
  "reports a b (Return v) = (a = 0 \<and> b = 0)"
| "reports a b Again = (a = 0 \<and> b = 0)"
| "reports a b Crash = (True)"
| "reports a b (MintAcquire c k) = (\<forall>x. reports a b (k x))"
| "reports a b (MintRelease p) = (reports a b p)"
| "reports a b (LaunchAcquire c k) = (\<forall>x. reports a b (k x))"
| "reports a b (LaunchRelease p) = (reports a b p)"
| "reports a b (Reserve target k) = (\<forall>x. reports a b (k x))"
| "reports a b (InflightDec p) = (reports a b p)"
| "reports a b (StartSpawn k) = (\<forall>x. reports a b (k x))"
| "reports a b (TaskDone p) = (reports a b p)"
| "reports a b (TasksWait p) = (reports a b p)"
| "reports a b (Go c p) = (reports 0 0 c \<and> reports a b p)"
| "reports a b (WgDone p) = (reports a b p)"
| "reports a b (WgWait p) = (reports a b p)"
| "reports a b (BeginShutdown p) = (reports a b p)"
| "reports a b (Select k) = (\<forall>x. reports a b (k x))"
| "reports a b (CtxErr c k) = (\<forall>x. reports a b (k x))"
| "reports a b (Now k) = (\<forall>x. reports a b (k x))"
| "reports a b (NameSuffix k) = (\<forall>x. reports a b (k x))"
| "reports a b (TrackAdd r p) = (reports a b p)"
| "reports a b (TrackRemove n p) = (reports a b p)"
| "reports a b (TrackGet n k) = (\<forall>x. reports a b (k x))"
| "reports a b (TrackSize k) = (\<forall>x. reports a b (k x))"
| "reports a b (TrackNames k) = (\<forall>x. reports a b (k x))"
| "reports a b (TrackSnapshot k) = (\<forall>x. reports a b (k x))"
| "reports a b (MarkIdle n t k) = (\<forall>x. reports a b (k x))"
| "reports a b (MarkBusy n t k) = (\<forall>x. reports a b (k x))"
| "reports a b (MarkForTermination n k) = (\<forall>x. reports a b (k x))"
| "reports a b (AskTerminationPending n k) = (\<forall>x. reports a b (k x))"
| "reports a b (Resolve c arch k) = (\<forall>x. reports a b (k x))"
| "reports a b (GenerateJIT c n w k) = (\<forall>x. reports a b (k x))"
| "reports a b (RemoveRunner c j k) = (\<forall>x. reports a b (k x))"
| "reports a b (IncusLaunch c q k) = ((\<forall>e. reports a (Suc b) (k (Inl e))) \<and> (\<forall>x. reports (Suc a) b (k (Inr x))))"
| "reports a b (IncusStop c n k) = (\<forall>x. reports a b (k x))"
| "reports a b (IncusDelete c n k) = (\<forall>x. reports a b (k x))"
| "reports a b (IncusList c n k) = (\<forall>x. reports a b (k x))"
| "reports a b (Metric m p) = (case m of LaunchOK \<Rightarrow> 0 < a \<and> reports (a - 1) b p | LaunchFail \<Rightarrow> 0 < b \<and> reports a (b - 1) p | _ \<Rightarrow> reports a b p)"

lemma reports_removeRunnerByID [simp]: "reports a b k \<Longrightarrow> reports a b (removeRunnerByID c n k)"
  by (simp add: removeRunnerByID_def)

lemma reports_removeRunnerBestEffort [simp]: "reports a b k \<Longrightarrow> reports a b (removeRunnerBestEffort c ref k)"
  by (simp add: removeRunnerBestEffort_def split: option.splits)

lemma reports_setTracked [simp]: "reports a b (setTracked k) = reports a b k"
  by (simp add: setTracked_def)

lemma reports_terminateInstance [simp]: "reports a b k \<Longrightarrow> reports a b (terminateInstance c n k)"
  by (simp add: terminateInstance_def Let_def split: option.splits)

lemma reports_launch [simp]: "reports 0 0 k \<Longrightarrow> reports 0 0 (launch c req tr k)"
  by (simp add: launch_def)

lemma reports_spawn_mint [simp]: "reports 0 0 (spawn_mint o1 rel)"
  by (simp add: spawn_mint_def spawn_tail_def Let_def split: option.splits sum.splits)

lemma reports_spawnIdleRunner: "reports 0 0 (spawnIdleRunner o1)"
  by (simp add: spawnIdleRunner_def split: sum.splits)

lemma reports_spawn_loop: "reports 0 0 k \<Longrightarrow> reports 0 0 (spawn_loop n k)"
  by (induction n) auto

lemma reports_parallelReap:
  "\<forall>f \<in> set fs. \<forall>k. reports 0 0 k \<longrightarrow> reports 0 0 (f k) \<Longrightarrow> reports 0 0 k \<Longrightarrow> reports 0 0 (parallelReap c fs k)"
  by (induction fs) auto

lemma reports_reapOnce: "reports 0 0 k \<Longrightarrow> reports 0 0 (reapOnce o1 c k)"
  by (auto simp: reapOnce_def reapTracked_def driftSweep_def Let_def intro!: reports_parallelReap
      split: runnerState.splits sum.splits)

lemma reports_Run: "reports 0 0 (Run o1)"
  by (auto simp: Run_def run_shutdown_def intro: reports_reapOnce)

lemma reports_code: "reports 0 0 (spawn_body (program o1)) \<and> reports 0 0 (loop_head (program o1))"
  by (simp add: reports_spawnIdleRunner reports_Run)

lemma reports_handlers:
  "reports 0 0 (HandleDesiredRunnerCount o1 n)" "reports 0 0 (HandleJobStarted e)"
  "reports 0 0 (HandleJobCompleted e)"
  by (simp_all add: HandleDesiredRunnerCount_def HandleJobStarted_def HandleJobCompleted_def Let_def
      reports_spawn_loop split: option.splits)

section \<open>Counting in the log\<close>

fun launched_with :: "bool \<Rightarrow> call \<Rightarrow> bool" where
  "launched_with b (CallLaunch n ok) = (ok = b)"
| "launched_with b _ = False"

fun counted_as :: "bool \<Rightarrow> call \<Rightarrow> bool" where
  "counted_as b (CallMetric m) = (m = (if b then LaunchOK else LaunchFail))"
| "counted_as b _ = False"

definition answered :: "bool \<Rightarrow> shared \<Rightarrow> nat" where
  "answered b s = length (filter (launched_with b) (log s))"

definition counted :: "bool \<Rightarrow> shared \<Rightarrow> nat" where
  "counted b s = length (filter (counted_as b) (log s))"

lemma counts_record [simp]:
  "answered b (record_call c s) = (if launched_with b c then 1 else 0) + answered b s"
  "counted b (record_call c s) = (if counted_as b c then 1 else 0) + counted b s"
  by (simp_all add: answered_def counted_def record_call_def)

lemma crashed_record [simp]: "crashed (record_call c s) = crashed s"
  by (simp add: record_call_def)

text \<open>What a step keeps: the reports owed account for the answers not counted yet.\<close>

definition reports_kept :: "shared \<Rightarrow> nat \<Rightarrow> nat \<Rightarrow> shared \<Rightarrow> proc \<Rightarrow> proc list \<Rightarrow> bool" where
  "reports_kept s a b s' p' new \<longleftrightarrow> list_all (reports 0 0) new \<and> (\<exists>a' b'. reports a' b' p'
     \<and> answered True s' + counted True s + a = answered True s + counted True s' + a'
     \<and> answered False s' + counted False s + b = answered False s + counted False s' + b')"

lemma reports_keptI:
  "reports a b p' \<Longrightarrow> list_all (reports 0 0) new \<Longrightarrow> answered True s' = answered True s \<Longrightarrow>
     answered False s' = answered False s \<Longrightarrow> counted True s' = counted True s \<Longrightarrow>
     counted False s' = counted False s \<Longrightarrow> reports_kept s a b s' p' new"
  by (auto simp: reports_kept_def)

lemma step_reports:
  assumes st: "step code r p s = Some (s', p', new)" and ow: "reports a b p" "reports 0 0 (spawn_body code) \<and> reports 0 0 (loop_head code)"
    and nc: "\<not> crashed s'"
  shows "reports_kept s a b s' p' new"
proof (cases p)
  case (IncusLaunch c q k)
  with st obtain v where v: "s' = record_call (CallLaunch (lr_Name q) (is_ok v)) s" "p' = k v" "new = []"
    by (auto split: reply.splits)
  show ?thesis
  proof (cases v)
    case (Inl e)
    with v ow IncusLaunch show ?thesis
      unfolding reports_kept_def by (intro conjI exI [of _ a] exI [of _ "Suc b"]) (simp_all add: is_ok_def)
  next
    case (Inr x)
    with v ow IncusLaunch show ?thesis
      unfolding reports_kept_def by (intro conjI exI [of _ "Suc a"] exI [of _ b]) (simp_all add: is_ok_def)
  qed
next
  case (Metric m q)
  with st have v: "s' = record_call (CallMetric m) s" "p' = q" "new = []" by auto
  consider "m = LaunchOK" | "m = LaunchFail" | "m \<noteq> LaunchOK" "m \<noteq> LaunchFail" by blast
  then show ?thesis
  proof cases
    case 1
    with v ow Metric show ?thesis
      unfolding reports_kept_def by (intro conjI exI [of _ "a - 1"] exI [of _ b]) simp_all
  next
    case 2
    with v ow Metric show ?thesis
      unfolding reports_kept_def by (intro conjI exI [of _ a] exI [of _ "b - 1"]) simp_all
  next
    case 3
    with v ow Metric show ?thesis
      unfolding reports_kept_def by (intro conjI exI [of _ a] exI [of _ b]) (auto split: metric.splits)
  qed
qed (use st ow nc in \<open>auto simp: Let_def answered_def counted_def record_call_def split: if_splits reply.splits prod.splits
    intro!: reports_keptI\<close>)

section \<open>The invariant\<close>

definition metrics_inv :: "sys \<Rightarrow> bool" where
  "metrics_inv y \<longleftrightarrow> crashed (shared y) \<or>
     (\<exists>as. list_all2 (\<lambda>p x. reports (fst x) (snd x) p) (threads y) as
        \<and> answered True (shared y) = counted True (shared y) + sum_list (map fst as)
        \<and> answered False (shared y) = counted False (shared y) + sum_list (map snd as))"

lemma sum_at: "i < length xs \<Longrightarrow> sum_list (map f (xs[i := x])) + f (xs ! i) = sum_list (map f xs) + (f x :: nat)"
  by (induction xs arbitrary: i) (auto split: nat.splits)

lemma metrics_inv_thread:
  assumes inv: "metrics_inv y" and i: "i < length (threads y)" "\<not> crashed (shared y)"
    and st: "step code r (threads y ! i) (shared y) = Some (s', p', new)" and sp: "reports 0 0 (spawn_body code) \<and> reports 0 0 (loop_head code)"
  shows "metrics_inv \<lparr>shared = s', threads = (threads y)[i := p'] @ new\<rparr>"
proof (cases "crashed s'")
  case False
  obtain as where as: "list_all2 (\<lambda>p x. reports (fst x) (snd x) p) (threads y) as"
    and eq: "answered True (shared y) = counted True (shared y) + sum_list (map fst as)"
      "answered False (shared y) = counted False (shared y) + sum_list (map snd as)"
    using inv i(2) by (auto simp: metrics_inv_def)
  have la: "i < length as" using as i(1) by (simp add: list_all2_lengthD)
  have "reports (fst (as ! i)) (snd (as ! i)) (threads y ! i)" using list_all2_nthD [OF as i(1)] by simp
  from step_reports [OF st this sp False] obtain a' b' where
    new: "list_all (reports 0 0) new" and p': "reports a' b' p'"
    and st_eq: "answered True s' + counted True (shared y) + fst (as ! i) = answered True (shared y) + counted True s' + a'"
      "answered False s' + counted False (shared y) + snd (as ! i) = answered False (shared y) + counted False s' + b'"
    unfolding reports_kept_def by blast
  let ?as = "as[i := (a', b')] @ map (\<lambda>_. (0, 0)) new"
  have "list_all2 (\<lambda>p x. reports (fst x) (snd x) p) new (map (\<lambda>_. (0, 0)) new)"
    using new by (induction new) auto
  moreover have "list_all2 (\<lambda>p x. reports (fst x) (snd x) p) ((threads y)[i := p']) (as[i := (a', b')])"
    using as p' by (simp add: list_all2_update_cong)
  ultimately have "list_all2 (\<lambda>p x. reports (fst x) (snd x) p) ((threads y)[i := p'] @ new) ?as"
    by (rule list_all2_appendI [rotated])
  moreover have "sum_list (map fst ?as) + fst (as ! i) = sum_list (map fst as) + a'"
    "sum_list (map snd ?as) + snd (as ! i) = sum_list (map snd as) + b'"
    using sum_at [OF la, of fst "(a', b')"] sum_at [OF la, of snd "(a', b')"] by (simp_all add: comp_def)
  ultimately show ?thesis using eq st_eq unfolding metrics_inv_def
    by (intro disjI2 exI [of _ ?as]) (simp del: map_append)
qed (simp add: metrics_inv_def)

lemma metrics_inv_entry:
  assumes "metrics_inv y" "reports 0 0 p"
  shows "metrics_inv (y\<lparr>threads := threads y @ [p]\<rparr>)"
proof (cases "crashed (shared y)")
  case False
  then obtain as where "list_all2 (\<lambda>p x. reports (fst x) (snd x) p) (threads y) as"
    "answered True (shared y) = counted True (shared y) + sum_list (map fst as)"
    "answered False (shared y) = counted False (shared y) + sum_list (map snd as)"
    using assms(1) by (auto simp: metrics_inv_def)
  then show ?thesis using assms(2) unfolding metrics_inv_def
    by (intro disjI2 exI [of _ "as @ [(0, 0)]"]) (auto intro: list_all2_appendI)
qed (simp add: metrics_inv_def)

lemma metrics_inv_shared:
  "metrics_inv y \<Longrightarrow> log s = log (shared y) \<Longrightarrow> crashed s = crashed (shared y) \<Longrightarrow> metrics_inv (y\<lparr>shared := s\<rparr>)"
  by (simp add: metrics_inv_def answered_def counted_def)

lemma metrics_inv_step:
  assumes "sys_step o1 l y = Some y'" "metrics_inv y"
  shows "metrics_inv y'"
proof (cases l)
  case (Thread i r)
  with assms metrics_inv_thread [OF assms(2) _ _ _ reports_code] show ?thesis
    by (auto split: if_splits)
qed (use assms in \<open>auto simp: Let_def intro!: metrics_inv_entry metrics_inv_shared reports_handlers split: if_splits\<close>)

interpretation counters: system_invariant o1 A "init_shared ml ll old" metrics_inv for o1 A ml ll old
proof
  show "metrics_inv (init_sys o1 (init_shared ml ll old))" for n
    unfolding metrics_inv_def using reports_Run [of o1]
    by (intro disjI2 exI [of _ "[(0, 0)]"])
      (simp add: init_sys_def init_shared_def answered_def counted_def)
qed (rule metrics_inv_step)

lemmas metrics_inv_reachable = counters.holds

section \<open>The counters\<close>

text \<open>The calls a class's recorder makes for what its orchestrator reported, oldest first.\<close>

fun metric_calls :: "string \<Rightarrow> call \<Rightarrow> prom_call list" where
  "metric_calls name (CallMetric m) = record_metric name m"
| "metric_calls name _ = []"

definition recorded :: "string \<Rightarrow> shared \<Rightarrow> prom_call list" where
  "recorded name s = concat (map (metric_calls name) (rev (log s)))"

definition increments :: "collector \<Rightarrow> string list \<Rightarrow> prom_call list \<Rightarrow> nat" where
  "increments c ls calls = length (filter (\<lambda>x. x = Inc c ls) calls)"

lemma increments_append [simp]: "increments c ls (xs @ ys) = increments c ls xs + increments c ls ys"
  by (simp add: increments_def)

lemma metric_calls_counted:
  "increments Launches [name, ''ok''] (metric_calls name c) = (if counted_as True c then 1 else 0)"
  "increments Launches [name, ''fail''] (metric_calls name c) = (if counted_as False c then 1 else 0)"
proof -
  have "increments Launches [name, ''ok''] (metric_calls name c) = (if counted_as True c then 1 else 0)
     \<and> increments Launches [name, ''fail''] (metric_calls name c) = (if counted_as False c then 1 else 0)"
  proof (cases c)
    case (CallMetric m)
    then show ?thesis by (cases m) (simp_all add: increments_def)
  qed (simp_all add: increments_def)
  then show "increments Launches [name, ''ok''] (metric_calls name c) = (if counted_as True c then 1 else 0)"
    "increments Launches [name, ''fail''] (metric_calls name c) = (if counted_as False c then 1 else 0)"
    by blast+
qed

lemma increments_log:
  assumes "\<And>c. increments k ls (metric_calls name c) = (if P c then 1 else 0)"
  shows "increments k ls (concat (map (metric_calls name) (rev cs))) = length (filter P cs)"
proof (induction cs)
  case Nil
  show ?case by (simp add: increments_def)
next
  case (Cons c cs)
  then show ?case by (simp add: assms)
qed

lemma recorded_counted:
  "increments Launches [name, ''ok''] (recorded name s) = counted True s"
  "increments Launches [name, ''fail''] (recorded name s) = counted False s"
  unfolding recorded_def counted_def by (rule increments_log, rule metric_calls_counted)+

text \<open>
  C19: the launch counters are exact. At any time a class's recorder has incremented
  launches_total for a result at most as often as Incus has answered a launch with it, and
  when every goroutine has returned exactly as often.
\<close>

theorem launch_counters_exact:
  assumes "New u addr sid old c = Inr (o1, s0)" "limiters_ok c" "reachable o1 A s0 y" "\<not> crashed (shared y)"
  shows "increments Launches [name, ''ok''] (recorded name (shared y)) \<le> length (filter (launched_with True) (log (shared y)))
     \<and> increments Launches [name, ''fail''] (recorded name (shared y)) \<le> length (filter (launched_with False) (log (shared y)))
     \<and> (list_all returned (threads y) \<longrightarrow>
          increments Launches [name, ''ok''] (recorded name (shared y)) = length (filter (launched_with True) (log (shared y)))
        \<and> increments Launches [name, ''fail''] (recorded name (shared y)) = length (filter (launched_with False) (log (shared y))))"
proof -
  obtain as where as: "list_all2 (\<lambda>p x. reports (fst x) (snd x) p) (threads y) as"
    and eq: "answered True (shared y) = counted True (shared y) + sum_list (map fst as)"
      "answered False (shared y) = counted False (shared y) + sum_list (map snd as)"
    using New_shape [OF assms(1,2)] metrics_inv_reachable assms(3,4) by (metis metrics_inv_def)
  have "sum_list (map fst as) = 0 \<and> sum_list (map snd as) = 0" if "list_all returned (threads y)"
    using as that
  proof (induction rule: list_all2_induct)
    case (Cons p ps x xs)
    then show ?case by (cases p) simp_all
  qed simp
  with eq show ?thesis unfolding recorded_counted by (simp add: answered_def)
qed

text \<open>One launch, answered with success while the termination of its runner is pending.\<close>

theorem launch_counters_exact_witness:
  "\<exists>y. reachable sample_orch any_env sample_shared y \<and> CallLaunch race_name True \<in> set (log (shared y))
     \<and> increments Launches [''c'', ''ok''] (recorded ''c'' (shared y)) = length (filter (launched_with True) (log (shared y)))"
proof -
  have ok: "limiters_ok sample_cfg" by (simp add: limiters_ok_def sample_cfg_def)
  obtain y where y: "sys_run sample_orch deferred_schedule (init_sys sample_orch sample_shared) = Some y"
    "list_all returned (threads y)" "\<not> crashed (shared y)" "CallLaunch race_name True \<in> set (log (shared y))"
    using deferred_run by blast
  have r: "reachable sample_orch any_env sample_shared y"
    using sys_run_reachable [OF reachable.reach_init y(1)] .
  from launch_counters_exact [OF sample_New ok r y(3)] y(2,4) r show ?thesis by blast
qed

end
