(* ===== verification/Orchestrator_Gauge.thy ===== *)
theory Orchestrator_Gauge imports Orchestrator_Scenarios Orchestrator_Pool begin

text \<open>
  The gauge of the tracked instances. Its value is read from the tracker and written to the
  metrics in two steps, and two goroutines that do so can overtake each other.
\<close>

text \<open>What the gauge shows: the value of the last call that set it.\<close>

fun gauge :: "call list \<Rightarrow> nat option" where
  "gauge [] = None"
| "gauge (CallMetric (SetTrackedInstances n) # cs) = Some n"
| "gauge (c # cs) = gauge cs"

definition other_name :: string where "other_name = ''incuse-4vcpu-8gb-20gb-amd64-1b2c3d4e''"

definition launched_as :: "string \<Rightarrow> Instance" where
  "launched_as n = \<lparr>inst_Name = n, inst_Description = [], inst_Type = [], inst_Status = [], inst_Project = [],
     inst_Config = (\<lambda>_. None)\<rparr>"

text \<open>
  Two spawns. Both are tracked; the first reads one tracked instance, the second reads two
  and writes it, then the first writes what it had read. After that both launch and end.
\<close>

definition overtaking_schedule :: "label list" where
  "overtaking_schedule =
     [Desired 2, Thread 1 NoReply, Thread 1 NoReply, Thread 1 NoReply,
      Thread 2 (Choice True), Thread 2 (Suffix ''0a1b2c3d''), Thread 2 (JITReply (Inr (''jit'', Some 11))),
      Thread 2 (Clock 1000), Thread 2 NoReply, Thread 2 NoReply, Thread 2 NoReply,
      Thread 3 (Choice True), Thread 3 (Suffix ''1b2c3d4e''), Thread 3 (JITReply (Inr (''jit'', Some 12))),
      Thread 3 (Clock 1000), Thread 3 NoReply, Thread 3 NoReply, Thread 3 NoReply, Thread 3 NoReply,
      Thread 2 NoReply]"

definition settling_schedule :: "nat \<Rightarrow> string \<Rightarrow> label list" where
  "settling_schedule i n =
     [Thread i NoReply, Thread i (Choice True), Thread i NoReply, Thread i (Clock 2000),
      Thread i (LaunchReply (Inr (launched_as n))), Thread i (Clock 3000), Thread i NoReply,
      Thread i NoReply, Thread i (Clock 4000), Thread i NoReply, Thread i NoReply, Thread i NoReply]"

lemma other_facts: "makeRunnerName id ''incuse-4vcpu-8gb-20gb-amd64'' ''1b2c3d4e'' = Some other_name"
  "race_name \<noteq> other_name" "other_name \<noteq> race_name"
  unfolding other_name_def race_name_def by code_simp+

lemma other_render: "\<exists>ci. Render (cloud_init_spec sample_orch zero3 ''jit'' other_name) = Inr ci"
  by (simp add: Render_def cloud_init_spec_def validate_cloudinit_def sample_defs zero3_def
      release_of_def other_name_def)

lemma other_tracked: "tr_Name (tracked_of o1 n ref t) = n" "State (tracked_of o1 n ref t) = StatusLaunching"
  "\<not> TerminationPending (tracked_of o1 n ref t)"
  by (simp_all add: tracked_of_def)

lemma overtaking_run:
  "\<exists>y. sys_run sample_orch (overtaking_schedule @ settling_schedule 2 race_name @ settling_schedule 3 other_name)
       (init_sys sample_orch sample_shared) = Some y
     \<and> threads y = [Run sample_orch, Return (Count 2), Return NoValue, Return NoValue]
     \<and> tracker_size (s_tracker (shared y)) = 2 \<and> list_all (\<lambda>r. State r = StatusIdle) (snapshot (s_tracker (shared y)))
     \<and> gauge (log (shared y)) = Some 1"
proof -
  obtain ci ci' where ci: "Render (cloud_init_spec sample_orch zero3 ''jit'' race_name) = Inr ci"
    "Render (cloud_init_spec sample_orch zero3 ''jit'' other_name) = Inr ci'"
    using spawn_render other_render by (auto simp: is_ok_def race_name_def split: sum.splits)
  show ?thesis
    unfolding overtaking_schedule_def settling_schedule_def
    by (simp add: run_simps race_facts spawn_name race_name_def [symmetric] ci race_runner_def [symmetric] other_facts
        other_tracked snapshot_def cong: wait_congs race_conts)
qed

text \<open>
  C23: The gauge of the tracked instances can be wrong at rest. A state is reachable in which
  two runners are tracked and idle, every goroutine but Run has returned, and the last value
  written to the gauge is one.
\<close>

theorem gauge_can_go_stale:
  "\<exists>y. reachable sample_orch any_env sample_shared y \<and> list_all returned (tl (threads y))
     \<and> tracker_size (s_tracker (shared y)) = 2 \<and> list_all (\<lambda>r. State r = StatusIdle) (snapshot (s_tracker (shared y)))
     \<and> gauge (log (shared y)) = Some 1"
proof -
  obtain y where y: "sys_run sample_orch (overtaking_schedule @ settling_schedule 2 race_name @ settling_schedule 3 other_name)
       (init_sys sample_orch sample_shared) = Some y"
    "threads y = [Run sample_orch, Return (Count 2), Return NoValue, Return NoValue]"
    "tracker_size (s_tracker (shared y)) = 2" "list_all (\<lambda>r. State r = StatusIdle) (snapshot (s_tracker (shared y)))"
    "gauge (log (shared y)) = Some 1"
    using overtaking_run by blast
  from sys_run_reachable [OF reach_init y(1)] y(2-5) show ?thesis by auto
qed

end
