(* ===== verification/Orchestrator_Sequential.thy ===== *)
theory Orchestrator_Sequential imports Orchestrator_Scenarios begin

text \<open>
  What each handler and goroutine does when nothing interferes: the new shared state, the
  calls it makes and its result, on every branch. The interleaved behaviour is the subject
  of the other theories; this one says what the code is for.
\<close>

section \<open>Running one goroutine alone\<close>

text \<open>
  \<open>runs code p s s' v new\<close>: with some answers of the environment \<open>p\<close> runs to its end from
  \<open>s\<close>, leaves \<open>s'\<close>, returns \<open>v\<close> and starts the goroutines \<open>new\<close>.
\<close>

inductive runs :: "code \<Rightarrow> proc \<Rightarrow> shared \<Rightarrow> shared \<Rightarrow> outcome \<Rightarrow> proc list \<Rightarrow> bool" for code where
  runs_done: "runs code (Return v) s s v []"
| runs_more: "step code r p s = Some (s1, p1, new1) \<Longrightarrow> runs code p1 s1 s' v new2 \<Longrightarrow>
     runs code p s s' v (new1 @ new2)"

inductive_simps runs_Return [simp]: "runs code (Return x) s s' v new"

text \<open>
  Such a run is a schedule of the whole system in which only that goroutine is chosen, so
  what it leads to is reachable, for every state of the other goroutines.
\<close>

lemma crashed_thread_step: "step code r p s = Some (s', p', new) \<Longrightarrow> crashed s \<Longrightarrow> crashed s'"
  by (cases p) (auto simp: Let_def record_call_def split: if_splits reply.splits prod.splits)

lemma runs_crashed: "runs code p s s' v new \<Longrightarrow> crashed s \<Longrightarrow> crashed s'"
  by (induction rule: runs.induct) (auto dest: crashed_thread_step)

lemma runs_schedule:
  assumes "runs (program o1) p s s' v new" "\<not> crashed s'"
    and "shared y = s" "i < length (threads y)" "threads y ! i = p"
  shows "\<exists>ls. list_all (\<lambda>l. \<exists>r. l = Thread i r) ls
     \<and> sys_run o1 ls y = Some \<lparr>shared = s', threads = (threads y)[i := Return v] @ new\<rparr>"
  using assms
proof (induction arbitrary: y rule: runs.induct)
  case (runs_done v s)
  then have "y = \<lparr>shared = s, threads = (threads y)[i := Return v] @ []\<rparr>"
    by (cases y) (auto dest: list_update_same_conv [THEN iffD2, symmetric])
  then show ?case by (intro exI [of _ "[]"]) simp
next
  case (runs_more r p s s1 p1 new1 s' v new2)
  let ?y1 = "\<lparr>shared = s1, threads = (threads y)[i := p1] @ new1\<rparr>"
  have "\<not> crashed s" using runs_more.hyps runs_more.prems(1) runs_crashed crashed_thread_step by blast
  then have st: "sys_step o1 (Thread i r) y = Some ?y1" using runs_more.hyps(1) runs_more.prems by simp
  obtain ls where "list_all (\<lambda>l. \<exists>r. l = Thread i r) ls"
    "sys_run o1 ls ?y1 = Some \<lparr>shared = s', threads = (threads ?y1)[i := Return v] @ new2\<rparr>"
    using runs_more.IH [of ?y1] runs_more.prems by (auto simp: nth_append)
  with st runs_more.prems(3) show ?case
    by (intro exI [of _ "Thread i r # ls"]) (simp add: list_update_append del: sys_step.simps)
qed

lemma runs_iff:
  assumes "\<And>x. p \<noteq> Return x"
  shows "runs code p s s' v new \<longleftrightarrow>
     (\<exists>r s1 p1 new1 new2. step code r p s = Some (s1, p1, new1) \<and> runs code p1 s1 s' v new2 \<and> new = new1 @ new2)"
proof
  assume "runs code p s s' v new"
  then show "\<exists>r s1 p1 new1 new2. step code r p s = Some (s1, p1, new1) \<and> runs code p1 s1 s' v new2 \<and> new = new1 @ new2"
    by cases (use assms in blast)+
qed (blast intro: runs_more)

lemma runs_quiet:
  assumes "\<And>x. p \<noteq> Return x" "\<And>r s1 p1 new1. step code r p s = Some (s1, p1, new1) \<Longrightarrow> new1 = []"
  shows "runs code p s s' v new \<longleftrightarrow> (\<exists>r s1 p1. step code r p s = Some (s1, p1, []) \<and> runs code p1 s1 s' v new)"
  using runs_iff [OF assms(1), of code s s' v new] assms(2) by (metis append_Nil)

text \<open>The same run, computed from the list of the environment's answers.\<close>

fun run_alone :: "code \<Rightarrow> reply list \<Rightarrow> proc \<Rightarrow> shared \<Rightarrow> (shared \<times> outcome \<times> proc list) option" where
  "run_alone code [] p s = (case p of Return v \<Rightarrow> Some (s, v, []) | _ \<Rightarrow> None)"
| "run_alone code (r # rs) p s =
     (case step code r p s of
        None \<Rightarrow> None
      | Some (s1, p1, new1) \<Rightarrow>
          map_option (\<lambda>(s', v, new2). (s', v, new1 @ new2)) (run_alone code rs p1 s1))"

lemma run_alone_runs: "run_alone code rs p s = Some (s', v, new) \<Longrightarrow> runs code p s s' v new"
  by (induction rs arbitrary: p s new)
    (auto split: proc.splits option.splits intro: runs_done runs_more)

text \<open>The operations, one by one.\<close>

lemma ex_reply:
  "(\<exists>r. P r) \<longleftrightarrow> P NoReply \<or> (\<exists>b. P (Choice b)) \<or> (\<exists>t. P (Clock t)) \<or> (\<exists>x. P (Suffix x))
     \<or> (\<exists>xs. P (Order xs)) \<or> (\<exists>v. P (ResolveReply v)) \<or> (\<exists>v. P (JITReply v)) \<or> (\<exists>e. P (ErrReply e))
     \<or> (\<exists>v. P (LaunchReply v)) \<or> (\<exists>v. P (ListReply v))"
  by (metis reply.exhaust)

lemma runs_MintAcquire:
  "runs code (MintAcquire c k) s s' v new \<longleftrightarrow>
     (\<exists>l. limiter_acquire (mintLimiter s) = Some l \<and> runs code (k True) (s\<lparr>mintLimiter := l\<rparr>) s' v new)
      \<or> (ctx_done c s \<and> runs code (k False) s s' v new)"
  by (subst runs_quiet) (auto simp: ex_reply split: reply.splits if_splits prod.splits option.splits)

lemma runs_MintRelease:
  "runs code (MintRelease p) s s' v new \<longleftrightarrow>
     (\<exists>l. limiter_release (mintLimiter s) = Some l \<and> runs code p (s\<lparr>mintLimiter := l\<rparr>) s' v new)"
  by (subst runs_quiet) (auto simp: ex_reply split: reply.splits if_splits prod.splits option.splits)

lemma runs_LaunchAcquire:
  "runs code (LaunchAcquire c k) s s' v new \<longleftrightarrow>
     (\<exists>l. limiter_acquire (launchLimiter s) = Some l \<and> runs code (k True) (s\<lparr>launchLimiter := l\<rparr>) s' v new)
      \<or> (ctx_done c s \<and> runs code (k False) s s' v new)"
  by (subst runs_quiet) (auto simp: ex_reply split: reply.splits if_splits prod.splits option.splits)

lemma runs_LaunchRelease:
  "runs code (LaunchRelease p) s s' v new \<longleftrightarrow>
     (\<exists>l. limiter_release (launchLimiter s) = Some l \<and> runs code p (s\<lparr>launchLimiter := l\<rparr>) s' v new)"
  by (subst runs_quiet) (auto simp: ex_reply split: reply.splits if_splits prod.splits option.splits)

lemma runs_InflightDec:
  "runs code (InflightDec p) s s' v new \<longleftrightarrow>
     runs code p (s\<lparr>spawnInflight := spawnInflight s - 1\<rparr>) s' v new"
  by (subst runs_quiet) (auto simp: ex_reply split: reply.splits if_splits prod.splits option.splits)

lemma runs_TaskDone:
  "runs code (TaskDone p) s s' v new \<longleftrightarrow>
     runs code p (s\<lparr>tasks := tasks s - 1\<rparr>) s' v new"
  by (subst runs_quiet) (auto simp: ex_reply split: reply.splits if_splits prod.splits option.splits)

lemma runs_CtxErr:
  "runs code (CtxErr c k) s s' v new \<longleftrightarrow>
     runs code (k (ctx_done c s)) s s' v new"
  by (subst runs_quiet) (auto simp: ex_reply split: reply.splits if_splits prod.splits option.splits)

lemma runs_Now:
  "runs code (Now k) s s' v new \<longleftrightarrow>
     (\<exists>t. runs code (k t) s s' v new)"
  by (subst runs_quiet) (auto simp: ex_reply split: reply.splits if_splits prod.splits option.splits)

lemma runs_NameSuffix:
  "runs code (NameSuffix k) s s' v new \<longleftrightarrow>
     (\<exists>x. runs code (k x) s s' v new)"
  by (subst runs_quiet) (auto simp: ex_reply split: reply.splits if_splits prod.splits option.splits)

lemma runs_TrackAdd:
  "runs code (TrackAdd t p) s s' v new \<longleftrightarrow>
     runs code p (s\<lparr>s_tracker := tracker_add t (s_tracker s), spawnInflight := spawnInflight s - 1,
       ever := insert (tr_Name t) (ever s)\<rparr>) s' v new"
  by (subst runs_quiet) (auto simp: ex_reply split: reply.splits if_splits prod.splits option.splits)

lemma runs_TrackRemove:
  "runs code (TrackRemove n p) s s' v new \<longleftrightarrow>
     runs code p (s\<lparr>s_tracker := tracker_remove n (s_tracker s)\<rparr>) s' v new"
  by (subst runs_quiet) (auto simp: ex_reply split: reply.splits if_splits prod.splits option.splits)

lemma runs_TrackGet:
  "runs code (TrackGet n k) s s' v new \<longleftrightarrow>
     runs code (k (tracker_get n (s_tracker s))) s s' v new"
  by (subst runs_quiet) (auto simp: ex_reply split: reply.splits if_splits prod.splits option.splits)

lemma runs_TrackSize:
  "runs code (TrackSize k) s s' v new \<longleftrightarrow>
     runs code (k (tracker_size (s_tracker s))) s s' v new"
  by (subst runs_quiet) (auto simp: ex_reply split: reply.splits if_splits prod.splits option.splits)

lemma runs_MarkIdle:
  "runs code (MarkIdle n t k) s s' v new \<longleftrightarrow>
     (case markIdle n t (s_tracker s) of (x, m) \<Rightarrow> runs code (k x) (s\<lparr>s_tracker := m\<rparr>) s' v new)"
  by (subst runs_quiet) (auto simp: ex_reply split: reply.splits if_splits prod.splits option.splits)

lemma runs_MarkBusy:
  "runs code (MarkBusy n t k) s s' v new \<longleftrightarrow>
     (case markBusy n t (s_tracker s) of (x, m) \<Rightarrow> runs code (k x) (s\<lparr>s_tracker := m\<rparr>) s' v new)"
  by (subst runs_quiet) (auto simp: ex_reply split: reply.splits if_splits prod.splits option.splits)

lemma runs_MarkForTermination:
  "runs code (MarkForTermination n k) s s' v new \<longleftrightarrow>
     (case markForTermination n (s_tracker s) of (x, m) \<Rightarrow> runs code (k x) (s\<lparr>s_tracker := m\<rparr>) s' v new)"
  by (subst runs_quiet) (auto simp: ex_reply split: reply.splits if_splits prod.splits option.splits)

lemma runs_AskTerminationPending:
  "runs code (AskTerminationPending n k) s s' v new \<longleftrightarrow>
     runs code (k (terminationPending n (s_tracker s))) s s' v new"
  by (subst runs_quiet) (auto simp: ex_reply split: reply.splits if_splits prod.splits option.splits)

lemma runs_Resolve:
  "runs code (Resolve c a k) s s' v new \<longleftrightarrow>
     (\<exists>x. runs code (k x) (record_call (CallResolve a (is_ok x)) s) s' v new)"
  by (subst runs_quiet) (auto simp: ex_reply split: reply.splits if_splits prod.splits option.splits)

lemma runs_GenerateJIT:
  "runs code (GenerateJIT c n w k) s s' v new \<longleftrightarrow>
     (\<exists>x. runs code (k x) (record_call (CallJIT n (case x of Inl _ \<Rightarrow> None | Inr (_, ref) \<Rightarrow> ref) (is_ok x)) s) s' v new)"
  by (subst runs_quiet) (auto simp: ex_reply split: reply.splits if_splits prod.splits option.splits)

lemma runs_RemoveRunner:
  "runs code (RemoveRunner c i k) s s' v new \<longleftrightarrow>
     (\<exists>e. runs code (k e) (record_call (CallRemoveRunner i) s) s' v new)"
  by (subst runs_quiet) (auto simp: ex_reply split: reply.splits if_splits prod.splits option.splits)

lemma runs_IncusLaunch:
  "runs code (IncusLaunch c q k) s s' v new \<longleftrightarrow>
     (\<exists>x. runs code (k x) (record_call (CallLaunch (lr_Name q) (is_ok x)) s) s' v new)"
  by (subst runs_quiet) (auto simp: ex_reply split: reply.splits if_splits prod.splits option.splits)

lemma runs_IncusStop:
  "runs code (IncusStop c n k) s s' v new \<longleftrightarrow>
     (\<exists>e. runs code (k e) (record_call (CallStop n) s) s' v new)"
  by (subst runs_quiet) (auto simp: ex_reply split: reply.splits if_splits prod.splits option.splits)

lemma runs_IncusDelete:
  "runs code (IncusDelete c n k) s s' v new \<longleftrightarrow>
     (\<exists>e. runs code (k e) (record_call (CallDelete n) s) s' v new)"
  by (subst runs_quiet) (auto simp: ex_reply split: reply.splits if_splits prod.splits option.splits)

lemma runs_Metric:
  "runs code (Metric m p) s s' v new \<longleftrightarrow>
     runs code p (record_call (CallMetric m) s) s' v new"
  by (subst runs_quiet) (auto simp: ex_reply split: reply.splits if_splits prod.splits option.splits)

lemma GenerateJIT_runs:
  assumes "runs code (GenerateJIT c n w k) s s' v new"
  obtains res :: jit_result where "runs code (k res)
    (record_call (CallJIT n (case res of Inl _ \<Rightarrow> None | Inr (_, ref) \<Rightarrow> ref) (is_ok res)) s) s' v new"
  using assms unfolding runs_GenerateJIT by blast

lemma Resolve_runs:
  assumes "runs code (Resolve c a k) s s' v new"
  obtains res :: "(string, release3) result" where "runs code (k res) (record_call (CallResolve a (is_ok res)) s) s' v new"
  using assms unfolding runs_Resolve by blast

lemmas runs_op = runs_MintAcquire runs_MintRelease runs_LaunchAcquire runs_LaunchRelease runs_InflightDec runs_TaskDone runs_CtxErr runs_Now runs_NameSuffix runs_TrackAdd runs_TrackRemove runs_TrackGet runs_TrackSize runs_MarkIdle runs_MarkBusy runs_MarkForTermination runs_AskTerminationPending runs_Resolve runs_GenerateJIT runs_RemoveRunner runs_IncusLaunch runs_IncusStop runs_IncusDelete runs_Metric

lemma runs_Reserve:
  "runs code (Reserve target k) s s' v new \<longleftrightarrow>
     (let n = target - (int (tracker_size (s_tracker s)) + spawnInflight s) in
      runs code (k n) (if n > 0 then s\<lparr>spawnInflight := spawnInflight s + n\<rparr> else s) s' v new)"
  by (subst runs_quiet) (auto simp: Let_def)

lemma runs_StartSpawn:
  "runs code (StartSpawn k) s s' v new \<longleftrightarrow>
     (if shuttingDown s then runs code (k False) s s' v new
      else \<exists>more. new = spawn_body code # more \<and> runs code (k True) (s\<lparr>tasks := Suc (tasks s)\<rparr>) s' v more)"
  by (subst runs_iff) (auto split: if_splits)

section \<open>The desired count\<close>

lemma spawn_loop_effect:
  "runs code (spawn_loop n (Return x)) s s' v new \<longleftrightarrow> v = x
     \<and> (if shuttingDown s then new = [] \<and> s' = s\<lparr>spawnInflight := spawnInflight s - int n\<rparr>
        else new = replicate n (spawn_body code) \<and> s' = s\<lparr>tasks := tasks s + n\<rparr>)"
proof (induction n arbitrary: s new)
  case 0
  show ?case by auto
next
  case (Suc n)
  show ?case by (auto simp: runs_StartSpawn runs_InflightDec Suc.IH algebra_simps)
qed

text \<open>
  C11: What HandleDesiredRunnerCount does. It answers the requested count, cut to the range
  from 0 to MaxRunners; it starts exactly as many spawns as are missing to that target,
  counting tracked runners and open reservations, and reserves for each; when Run is already
  shutting down it starts none and leaves no reservation behind. It never stops a runner.
\<close>

theorem desired_count_effect:
  "runs (program o1) (HandleDesiredRunnerCount o1 n) s s' v new \<longleftrightarrow>
     (let target = max 0 (min n (ss_MaxRunners (o_spec o1)));
          missing = nat (target - (int (tracker_size (s_tracker s)) + spawnInflight s)) in
      v = Count target
      \<and> (if shuttingDown s then new = [] \<and> s' = s
         else new = replicate missing (spawnIdleRunner o1)
           \<and> s' = s\<lparr>spawnInflight := spawnInflight s + int missing, tasks := tasks s + missing\<rparr>))"
proof -
  have c: "clamp_target m n = max 0 (min n m)" for m by (auto simp: clamp_target_def Let_def)
  show ?thesis
    by (auto simp: HandleDesiredRunnerCount_def runs_Reserve spawn_loop_effect c Let_def)
qed

section \<open>The end of a job\<close>

lemma delete_map_entry: "AList.delete n (AList.map_entry n f t) = AList.delete n t"
  by (induction t) (auto split: prod.splits)

lemma remove_pending: "tracker_remove n (AList.map_entry n f t) = tracker_remove n t"
  by (simp add: tracker_remove_def delete_map_entry)

text \<open>
  C12: What HandleJobCompleted does. For a runner that is not tracked (or an event without a
  name) nothing changes and nothing is called. A runner in launch is only marked. Any other
  runner leaves the tracker, and its instance is stopped and then deleted, whatever the stop
  answers, after the reap and the lifetime have been recorded.
\<close>

theorem job_completed_effect:
  "runs code (HandleJobCompleted e) s s' v new \<longleftrightarrow> v = NoValue \<and> new = []
     \<and> (case e of None \<Rightarrow> s' = s | Some n \<Rightarrow>
        (case (if n = [] then None else tracker_get n (s_tracker s)) of
           None \<Rightarrow> s' = s
         | Some r \<Rightarrow>
             if State r = StatusLaunching then
               s' = s\<lparr>s_tracker := AList.map_entry n pending_entry (s_tracker s),
                      log := CallMetric (Reap ''job_completed'') # log s\<rparr>
             else
               \<exists>t. s' = s\<lparr>s_tracker := tracker_remove n (s_tracker s),
                      log := [CallDelete n, CallStop n,
                        CallMetric (SetTrackedInstances (tracker_size (tracker_remove n (s_tracker s)))),
                        CallMetric (RunnerLifetime (time_sub t (MintedAt r))),
                        CallMetric (Reap ''job_completed'')] @ log s\<rparr>))"
  by (auto simp: HandleJobCompleted_def terminateInstance_def setTracked_def runs_op record_call_def
      markForTermination_def tracker_get_def remove_pending map_of_map_entry pending_entry_def Let_def
      split: option.splits)

section \<open>A spawn\<close>

lemma acquire_release: "limiter_acquire l = Some l' \<Longrightarrow> limiter_release l' = Some l"
  by (auto simp: limiter_acquire_def limiter_release_def split: if_splits)

lemma runs_removeRunnerByID:
  "runs code (removeRunnerByID c i k) s s' v new \<longleftrightarrow>
     runs code k (if i = 0 then s else record_call (CallRemoveRunner i) s) s' v new"
  by (simp add: removeRunnerByID_def runs_op)

lemma runs_setTracked:
  "runs code (setTracked k) s s' v new \<longleftrightarrow>
     runs code k (record_call (CallMetric (SetTrackedInstances (tracker_size (s_tracker s)))) s) s' v new"
  by (simp add: setTracked_def runs_op)

text \<open>The calls between two states, and what a spawn leaves as it was.\<close>

definition new_calls :: "shared \<Rightarrow> shared \<Rightarrow> call list" where
  "new_calls s s' = take (length (log s') - length (log s)) (log s')"

definition leaves :: "shared \<Rightarrow> shared \<Rightarrow> bool" where
  "leaves s s' \<longleftrightarrow> log s' = new_calls s s' @ log s \<and> mintLimiter s' = mintLimiter s \<and> launchLimiter s' = launchLimiter s
     \<and> shuttingDown s' = shuttingDown s \<and> crashed s' = crashed s"

text \<open>The runner \<open>n\<close> is up: launched, idle, its registration kept; or it is gone, with its registration.\<close>

definition is_up :: "string \<Rightarrow> trackedRunner \<Rightarrow> shared \<Rightarrow> shared \<Rightarrow> bool" where
  "is_up n r s s' \<longleftrightarrow> CallLaunch n True \<in> set (new_calls s s') \<and> (\<forall>i. CallRemoveRunner i \<notin> set (new_calls s s'))
     \<and> (\<exists>t. map_of (s_tracker s') = (map_of (s_tracker s))(n \<mapsto> r\<lparr>State := StatusIdle, ReadyAt := t\<rparr>))"

definition is_down :: "string \<Rightarrow> int \<Rightarrow> shared \<Rightarrow> shared \<Rightarrow> bool" where
  "is_down n i s s' \<longleftrightarrow> (\<forall>m. CallLaunch m True \<notin> set (new_calls s s'))
     \<and> (\<forall>m ref b. CallJIT m ref b \<notin> set (new_calls s s'))
     \<and> (i \<noteq> 0 \<longrightarrow> CallRemoveRunner i \<in> set (new_calls s s'))
     \<and> map_of (s_tracker s') = (map_of (s_tracker s))(n := None)"

lemmas effect_defs = leaves_def is_up_def is_down_def new_calls_def record_call_def

lemma launch_effect:
  assumes r: "runs code (launch c req tr k) s s' v new"
    and tr: "map_of (s_tracker s) (tr_Name tr) = Some tr" "State tr = StatusLaunching" "\<not> TerminationPending tr"
    and n: "lr_Name req = tr_Name tr"
  shows "\<exists>s1. runs code k s1 s' v new \<and> leaves s s1 \<and> spawnInflight s1 = spawnInflight s \<and> tasks s1 = tasks s
     \<and> (is_up (tr_Name tr) tr s s1 \<or> is_down (tr_Name tr) (RunnerID tr) s s1)"
proof (rule ccontr)
  assume "\<not> ?thesis"
  then have no: "runs code k s1 s' v new \<Longrightarrow> \<not> (leaves s s1 \<and> spawnInflight s1 = spawnInflight s \<and> tasks s1 = tasks s
     \<and> (is_up (tr_Name tr) tr s s1 \<or> is_down (tr_Name tr) (RunnerID tr) s s1))" for s1 by blast
  have rel: "limiter_acquire (launchLimiter s) = Some l \<Longrightarrow> limiter_release l = Some (launchLimiter s)" for l
    by (rule acquire_release)
  show False
    using r
    by (auto simp: launch_def runs_op runs_removeRunnerByID runs_setTracked terminationPending_def tr n markIdle_def
        idle_entry_def rel effect_defs map_of_map_entry delete_conv' tracker_remove_def is_ok_def fun_eq_iff
        split: sum.splits if_splits dest!: no)
qed

lemma new_calls_trans:
  "log s2 = pre @ log s \<Longrightarrow> log s1 = new_calls s2 s1 @ log s2 \<Longrightarrow> new_calls s s1 = new_calls s2 s1 @ pre"
proof -
  assume a: "log s2 = pre @ log s" and b: "log s1 = new_calls s2 s1 @ log s2"
  have c: "log s1 = (new_calls s2 s1 @ pre) @ log s" using a b by simp
  have "new_calls s s1 = take (length (log s1) - length (log s)) (log s1)" by (simp add: new_calls_def)
  also have "\<dots> = new_calls s2 s1 @ pre" unfolding c by simp
  finally show ?thesis .
qed

lemma up_or_down_later:
  assumes l: "leaves s2 s1" and pre: "log s2 = pre @ log s"
    and q: "\<forall>m b. CallLaunch m b \<notin> set pre" "\<forall>i. CallRemoveRunner i \<notin> set pre"
      "\<forall>m ref b. CallJIT m ref b \<notin> set pre"
    and m: "map_of (s_tracker s2) = (map_of (s_tracker s))(n \<mapsto> r)"
  shows "is_up n r s2 s1 \<Longrightarrow> is_up n r s s1" "is_down n i s2 s1 \<Longrightarrow> is_down n i s s1"
proof -
  have c: "new_calls s s1 = new_calls s2 s1 @ pre"
    using l pre by (intro new_calls_trans) (simp_all add: leaves_def)
  show "is_up n r s2 s1 \<Longrightarrow> is_up n r s s1" "is_down n i s2 s1 \<Longrightarrow> is_down n i s s1"
    using q m by (auto simp: is_up_def is_down_def c)
qed

lemma spawn_tail_effect:
  assumes r: "runs code (spawn_tail o1 n ci ref t) s s' v new" and m: "limiter_release (mintLimiter s) = Some m"
  shows "v = NoValue \<and> new = [] \<and> leaves (s\<lparr>mintLimiter := m\<rparr>) s' \<and> spawnInflight s' = spawnInflight s - 1
     \<and> tasks s' = tasks s - 1 \<and> (is_up n (tracked_of o1 n ref t) s s' \<or> is_down n (runnerRefID ref) s s')"
proof -
  let ?tr = "tracked_of o1 n ref t" and ?req = "buildLaunchRequest (launch_inputs o1 n ci t)"
  let ?t2 = "tracker_add ?tr (s_tracker s)"
  let ?pre = "[CallMetric (SetTrackedInstances (tracker_size ?t2)), CallMetric RunnerSpawned]"
  let ?s2 = "s\<lparr>s_tracker := ?t2, spawnInflight := spawnInflight s - 1, ever := insert n (ever s),
      log := ?pre @ log s, mintLimiter := m\<rparr>"
  have tr: "tr_Name ?tr = n" "RunnerID ?tr = runnerRefID ref" "State ?tr = StatusLaunching" "\<not> TerminationPending ?tr"
    by (simp_all add: tracked_of_def)
  have "runs code (launch LifecycleCtx ?req ?tr (TaskDone (Return NoValue))) ?s2 s' v new"
    using r m by (simp add: spawn_tail_def Let_def runs_op runs_setTracked record_call_def tr(1))
  moreover have m2: "map_of (s_tracker ?s2) = (map_of (s_tracker s))(n \<mapsto> ?tr)"
    by (simp add: tracker_add_def update_conv' tr(1))
  moreover have "lr_Name ?req = tr_Name ?tr"
    by (simp add: buildLaunchRequest_def launch_inputs_def Let_def tr(1))
  ultimately obtain s1 where s1: "runs code (TaskDone (Return NoValue)) s1 s' v new" "leaves ?s2 s1"
    "spawnInflight s1 = spawnInflight ?s2" "tasks s1 = tasks ?s2" "is_up n ?tr ?s2 s1 \<or> is_down n (runnerRefID ref) ?s2 s1"
    using launch_effect [of code LifecycleCtx ?req ?tr "TaskDone (Return NoValue)" ?s2 s' v new] tr by auto
  have e: "v = NoValue" "new = []" "s' = s1\<lparr>tasks := tasks s1 - 1\<rparr>" using s1(1) by (simp_all add: runs_op)
  have "is_up n ?tr s s1 \<or> is_down n (runnerRefID ref) s s1"
    using s1(5) up_or_down_later [OF s1(2) _ _ _ _ m2, where pre = ?pre] by auto
  moreover have "leaves (s\<lparr>mintLimiter := m\<rparr>) s1"
    using s1(2) new_calls_trans [of ?s2 ?pre "s\<lparr>mintLimiter := m\<rparr>" s1] by (auto simp: leaves_def)
  ultimately show ?thesis using e s1(3,4) by (auto simp: effect_defs)
qed

text \<open>No runner came up: nothing was launched, every registration was removed, the tracker lost at most one name.\<close>

definition no_runner :: "shared \<Rightarrow> shared \<Rightarrow> bool" where
  "no_runner s s' \<longleftrightarrow> (\<forall>n. CallLaunch n True \<notin> set (new_calls s s'))
     \<and> (\<forall>n i. CallJIT n (Some i) True \<in> set (new_calls s s') \<and> i \<noteq> 0 \<longrightarrow> CallRemoveRunner i \<in> set (new_calls s s'))
     \<and> (\<exists>ns. map_of (s_tracker s') = map_of (s_tracker s) |` (- ns) \<and> (ns = {} \<or> (\<exists>n. ns = {n})))"

lemma spawn_minted_effect:
  assumes r: "runs code (spawn_tail o1 n cloudInit ref t) (record_call (CallJIT n ref True) s) s' v new"
    and m: "limiter_release (mintLimiter s) = Some m"
  shows "v = NoValue \<and> new = [] \<and> leaves (s\<lparr>mintLimiter := m\<rparr>) s' \<and> spawnInflight s' = spawnInflight s - 1
     \<and> tasks s' = tasks s - 1
     \<and> (no_runner s s' \<or> CallJIT n ref True \<in> set (new_calls s s') \<and> is_up n (tracked_of o1 n ref t) s s')"
proof -
  let ?s1 = "record_call (CallJIT n ref True) s"
  from spawn_tail_effect [OF r, of m] m have e: "v = NoValue" "new = []" "leaves (?s1\<lparr>mintLimiter := m\<rparr>) s'"
    "spawnInflight s' = spawnInflight s - 1" "tasks s' = tasks s - 1"
    "is_up n (tracked_of o1 n ref t) ?s1 s' \<or> is_down n (runnerRefID ref) ?s1 s'"
    by (simp_all add: record_call_def)
  have c: "new_calls s s' = new_calls ?s1 s' @ [CallJIT n ref True]"
    using e(3) by (intro new_calls_trans) (simp_all add: leaves_def record_call_def new_calls_def)
  then have "leaves (s\<lparr>mintLimiter := m\<rparr>) s'"
    using e(3) by (simp add: leaves_def record_call_def new_calls_def)
  moreover have "no_runner s s'" if "is_down n (runnerRefID ref) ?s1 s'"
    using that unfolding no_runner_def c
    by (auto simp: is_down_def record_call_def runnerRefID_def restrict_map_def fun_eq_iff intro!: exI [of _ "{n}"])
  moreover have "is_up n (tracked_of o1 n ref t) s s'" if "is_up n (tracked_of o1 n ref t) ?s1 s'"
    using that by (auto simp: is_up_def c) (auto simp: record_call_def)
  moreover have "CallJIT n ref True \<in> set (new_calls s s')" by (simp add: c)
  ultimately show ?thesis using e by blast
qed

lemma spawn_mint_effect:
  assumes r: "runs code (spawn_mint o1 rel) s s' v new" and m: "limiter_release (mintLimiter s) = Some m"
    and nc: "\<not> crashed s'"
  shows "v = NoValue \<and> new = [] \<and> leaves (s\<lparr>mintLimiter := m\<rparr>) s' \<and> spawnInflight s' = spawnInflight s - 1
     \<and> tasks s' = tasks s - 1
     \<and> (no_runner s s' \<or> (\<exists>n ref t. CallJIT n ref True \<in> set (new_calls s s') \<and> is_up n (tracked_of o1 n ref t) s s'))"
proof -
  let ?k = "\<lambda>n (res :: jit_result). case res of
                Inl err \<Rightarrow> MintRelease (InflightDec (TaskDone (Return NoValue)))
              | Inr (jit, ref) \<Rightarrow>
                  (case Render (cloud_init_spec o1 rel jit n) of
                     Inl err \<Rightarrow> removeRunnerBestEffort LifecycleCtx ref (MintRelease (InflightDec (TaskDone (Return NoValue))))
                   | Inr cloudInit \<Rightarrow> Now (\<lambda>t. spawn_tail o1 n cloudInit ref t))"
  obtain x where x: "runs code (case makeRunnerName (o_lower o1) (ss_Name (o_spec o1)) x of
          None \<Rightarrow> Crash
        | Some n \<Rightarrow> GenerateJIT LifecycleCtx n (WorkFolder (o_runnerCfg o1)) (?k n)) s s' v new"
    using r by (auto simp: spawn_mint_def Let_def runs_NameSuffix)
  have "makeRunnerName (o_lower o1) (ss_Name (o_spec o1)) x \<noteq> None"
  proof
    assume "makeRunnerName (o_lower o1) (ss_Name (o_spec o1)) x = None"
    with x have "runs code Crash s s' v new" by simp
    then show False using nc by (subst (asm) runs_iff) auto
  qed
  then obtain n where n: "makeRunnerName (o_lower o1) (ss_Name (o_spec o1)) x = Some n" by blast
  with x have "runs code (GenerateJIT LifecycleCtx n (WorkFolder (o_runnerCfg o1)) (?k n)) s s' v new" by simp
  then obtain res :: jit_result where res: "runs code (?k n res)
      (record_call (CallJIT n (case res of Inl _ \<Rightarrow> None | Inr (_, ref) \<Rightarrow> ref) (is_ok res)) s) s' v new"
    by (rule GenerateJIT_runs)
  show ?thesis
  proof (cases res)
    case (Inl err)
    with res m show ?thesis
      by (auto simp: runs_op effect_defs no_runner_def is_ok_def intro!: exI [of _ "{}"])
  next
    case (Inr jr)
    obtain jit ref where jr: "jr = (jit, ref)" by fastforce
    show ?thesis
    proof (cases "Render (cloud_init_spec o1 rel jit n)")
      case (Inl e)
      with res m Inr jr show ?thesis
        by (auto simp: runs_op runs_removeRunnerByID removeRunnerBestEffort_def effect_defs no_runner_def is_ok_def
            intro!: exI [of _ "{}"] split: option.splits if_splits)
    next
      case (Inr cloudInit)
      with res \<open>res = Inr jr\<close> jr obtain t where "runs code (spawn_tail o1 n cloudInit ref t) (record_call (CallJIT n ref True) s) s' v new"
        by (auto simp: runs_op is_ok_def)
      from spawn_minted_effect [OF this m] show ?thesis by blast
    qed
  qed
qed

lemma spawn_resolve_effect:
  assumes r: "runs code (Resolve LifecycleCtx (spec_Arch (ss_Runner (o_spec o1))) (\<lambda>res.
       case res of Inl err \<Rightarrow> MintRelease (InflightDec (TaskDone (Return NoValue))) | Inr rel \<Rightarrow> spawn_mint o1 rel))
      (s\<lparr>mintLimiter := l\<rparr>) s' v new"
    and m: "limiter_release l = Some (mintLimiter s)" and nc: "\<not> crashed s'"
  shows "v = NoValue \<and> new = [] \<and> leaves s s' \<and> spawnInflight s' = spawnInflight s - 1 \<and> tasks s' = tasks s - 1
     \<and> (no_runner s s' \<or> (\<exists>n ref t. CallJIT n ref True \<in> set (new_calls s s') \<and> is_up n (tracked_of o1 n ref t) s s'))"
proof -
  from r obtain res :: "(string, release3) result" where res: "runs code (case res of
        Inl err \<Rightarrow> MintRelease (InflightDec (TaskDone (Return NoValue))) | Inr rel \<Rightarrow> spawn_mint o1 rel)
      (record_call (CallResolve (spec_Arch (ss_Runner (o_spec o1))) (is_ok res)) (s\<lparr>mintLimiter := l\<rparr>)) s' v new"
    by (rule Resolve_runs)
  show ?thesis
  proof (cases res)
    case (Inl e)
    with res m show ?thesis
      by (auto simp: runs_op effect_defs no_runner_def intro!: exI [of _ "{}"])
  next
    case (Inr rel)
    let ?pre = "[CallResolve (spec_Arch (ss_Runner (o_spec o1))) True]"
    let ?s1 = "s\<lparr>mintLimiter := l, log := ?pre @ log s\<rparr>"
    have "runs code (spawn_mint o1 rel) ?s1 s' v new" using res Inr by (simp add: record_call_def is_ok_def)
    from spawn_mint_effect [OF this _ nc, of "mintLimiter s"] m have e:
      "v = NoValue" "new = []" "leaves (?s1\<lparr>mintLimiter := mintLimiter s\<rparr>) s'"
      "spawnInflight s' = spawnInflight s - 1" "tasks s' = tasks s - 1"
      "no_runner ?s1 s' \<or> (\<exists>n ref t. CallJIT n ref True \<in> set (new_calls ?s1 s') \<and> is_up n (tracked_of o1 n ref t) ?s1 s')"
      by simp_all
    have c: "new_calls s s' = new_calls ?s1 s' @ ?pre"
      using e(3) by (intro new_calls_trans) (simp_all add: leaves_def new_calls_def)
    have "leaves s s'" using e(3) by (simp add: leaves_def c) (simp add: new_calls_def)
    moreover have "no_runner ?s1 s' \<Longrightarrow> no_runner s s'" by (auto simp: no_runner_def c)
    moreover have "is_up n r ?s1 s' \<Longrightarrow> is_up n r s s'" for n r by (auto simp: is_up_def c)
    moreover have "set (new_calls ?s1 s') \<subseteq> set (new_calls s s')" unfolding c by auto
    ultimately show ?thesis using e(1,2,4-6) by blast
  qed
qed

text \<open>
  C10: What a spawn does, alone. It gives back its mint and launch permits, its reservation
  and its task on every path; and either one runner is up, registered, launched, tracked as
  idle and kept at GitHub, or none is: nothing was launched with success, every registration
  made on the way has been removed, and the tracker lost at most the name that was drawn.
\<close>

theorem spawn_effect:
  assumes "runs code (spawnIdleRunner o1) s s' v new" "\<not> crashed s'"
  shows "v = NoValue \<and> new = [] \<and> leaves s s' \<and> spawnInflight s' = spawnInflight s - 1 \<and> tasks s' = tasks s - 1
     \<and> (no_runner s s' \<or> (\<exists>n ref t. CallJIT n ref True \<in> set (new_calls s s') \<and> is_up n (tracked_of o1 n ref t) s s'))"
proof -
  have none: "no_runner s (s\<lparr>spawnInflight := i, tasks := k\<rparr>)" for i k
    by (auto simp: no_runner_def new_calls_def intro!: exI [of _ "{}"])
  from assms(1) consider
      (no_permit) "runs code (InflightDec (TaskDone (Return NoValue))) s s' v new"
    | (permit) l where "limiter_acquire (mintLimiter s) = Some l"
      "runs code (if \<not> UseBakedImage (o_runnerCfg o1) then
         Resolve LifecycleCtx (spec_Arch (ss_Runner (o_spec o1))) (\<lambda>res.
           case res of Inl err \<Rightarrow> MintRelease (InflightDec (TaskDone (Return NoValue))) | Inr rel \<Rightarrow> spawn_mint o1 rel)
       else spawn_mint o1 zero3) (s\<lparr>mintLimiter := l\<rparr>) s' v new"
    by (auto simp: spawnIdleRunner_def runs_MintAcquire)
  then show ?thesis
  proof cases
    case no_permit
    then show ?thesis using none by (auto simp: runs_op effect_defs)
  next
    case permit
    have m: "limiter_release l = Some (mintLimiter s)" by (rule acquire_release [OF permit(1)])
    show ?thesis
    proof (cases "UseBakedImage (o_runnerCfg o1)")
      case True
      with permit(2) have "runs code (spawn_mint o1 zero3) (s\<lparr>mintLimiter := l\<rparr>) s' v new" by simp
      from spawn_mint_effect [OF this _ assms(2), of "mintLimiter s"] m show ?thesis
        by (simp add: effect_defs no_runner_def)
    next
      case False
      with permit(2) have "runs code (Resolve LifecycleCtx (spec_Arch (ss_Runner (o_spec o1))) (\<lambda>res.
           case res of Inl err \<Rightarrow> MintRelease (InflightDec (TaskDone (Return NoValue))) | Inr rel \<Rightarrow> spawn_mint o1 rel))
        (s\<lparr>mintLimiter := l\<rparr>) s' v new" by simp
      from spawn_resolve_effect [OF this m assms(2)] show ?thesis .
    qed
  qed
qed

text \<open>The spawn of the scenario above, run alone to its end: one runner is up.\<close>

definition spawn_replies :: "reply list" where
  "spawn_replies =
     [Choice True, Suffix ''0a1b2c3d'', JITReply (Inr (''jit'', Some 11)), Clock 1000, NoReply, NoReply, NoReply,
      NoReply, NoReply, Choice True, NoReply, Clock 2000,
      LaunchReply (Inr \<lparr>inst_Name = race_name, inst_Description = [], inst_Type = [],
        inst_Status = [], inst_Project = [], inst_Config = (\<lambda>_. None)\<rparr>),
      Clock 3000, NoReply, NoReply, Clock 4000, NoReply, NoReply, NoReply]"

definition spawn_start :: shared where "spawn_start = sample_shared\<lparr>spawnInflight := 1, tasks := 1\<rparr>"

lemma spawn_alone:
  "\<exists>s'. run_alone (program sample_orch) spawn_replies (spawnIdleRunner sample_orch) spawn_start = Some (s', NoValue, [])
     \<and> CallLaunch race_name True \<in> set (new_calls spawn_start s') \<and> \<not> crashed s'"
proof -
  obtain ci where ci: "Render (cloud_init_spec sample_orch zero3 ''jit'' race_name) = Inr ci"
    using spawn_render by (auto simp: is_ok_def race_name_def split: sum.splits)
  show ?thesis
    unfolding spawn_replies_def spawn_start_def
    by (simp add: run_simps race_facts spawn_name race_name_def [symmetric] ci race_runner_def [symmetric]
      stale_runner_def new_calls_def buildLaunchRequest_def launch_inputs_def cong: wait_congs race_conts)
qed

theorem spawn_effect_witness:
  "\<exists>s' n ref t. runs (program sample_orch) (spawnIdleRunner sample_orch) spawn_start s' NoValue []
     \<and> spawnInflight s' = 0 \<and> tasks s' = 0
     \<and> CallJIT n ref True \<in> set (new_calls spawn_start s') \<and> is_up n (tracked_of sample_orch n ref t) spawn_start s'"
proof -
  obtain s' where s': "run_alone (program sample_orch) spawn_replies (spawnIdleRunner sample_orch) spawn_start
      = Some (s', NoValue, [])" "CallLaunch race_name True \<in> set (new_calls spawn_start s')" "\<not> crashed s'"
    using spawn_alone by blast
  from spawn_effect [OF run_alone_runs [OF s'(1)] s'(3)] s'(2) show ?thesis
    using run_alone_runs [OF s'(1)] by (auto simp: no_runner_def spawn_start_def)
qed

section \<open>The reaper\<close>

text \<open>What terminateInstance does to the shared state, the clock at \<open>t\<close>.\<close>

definition terminated :: "string \<Rightarrow> time \<Rightarrow> shared \<Rightarrow> shared" where
  "terminated n t s =
     (case tracker_get n (s_tracker s) of
        Some r \<Rightarrow>
          if State r = StatusLaunching then s\<lparr>s_tracker := AList.map_entry n pending_entry (s_tracker s)\<rparr>
          else s\<lparr>s_tracker := tracker_remove n (s_tracker s),
                 log := [CallDelete n, CallStop n,
                   CallMetric (SetTrackedInstances (tracker_size (tracker_remove n (s_tracker s)))),
                   CallMetric (RunnerLifetime (time_sub t (MintedAt r)))] @ log s\<rparr>
      | None \<Rightarrow> s\<lparr>log := [CallDelete n, CallStop n,
                   CallMetric (SetTrackedInstances (tracker_size (s_tracker s)))] @ log s\<rparr>)"

lemma remove_untracked: "tracker_get n m = None \<Longrightarrow> tracker_remove n m = m"
  by (simp add: tracker_get_def tracker_remove_def map_of_eq_None_iff delete_id)

lemma runs_terminateInstance:
  "runs code (terminateInstance c n k) s s' v new \<longleftrightarrow> (\<exists>t. runs code k (terminated n t s) s' v new)"
  by (auto simp: terminateInstance_def setTracked_def runs_op record_call_def terminated_def
      markForTermination_def tracker_get_def remove_pending map_of_map_entry pending_entry_def Let_def
      remove_untracked [unfolded tracker_get_def] split: option.splits)

text \<open>When a runner, as the snapshot has it, is overdue, and the reason the reaper records.\<close>

definition overdue :: "orch \<Rightarrow> trackedRunner \<Rightarrow> time \<Rightarrow> string option" where
  "overdue o1 r now =
     (if State r = StatusBusy
      then (if time_sub now (BusyAt r) > MaxJobDuration (o_runnerCfg o1) then Some ''max_job_duration'' else None)
      else (if time_sub now (MintedAt r) > RegistrationTimeout (o_runnerCfg o1)
            then Some ''registration_timeout'' else None))"

text \<open>
  What one reap does. A runner that is in time by its snapshot is left alone. An overdue
  one is recorded under the reason of its state and terminated, which for a runner whose
  launch is still under way only marks it and otherwise takes it out of the tracker, stops and
  deletes it; then its registration is removed at GitHub when the snapshot has one.
\<close>

theorem reapTracked_effect:
  "runs code (reapTracked o1 c r now (Return x)) s s' v new \<longleftrightarrow> v = x \<and> new = []
     \<and> (case overdue o1 r now of
          None \<Rightarrow> s' = s
        | Some reason \<Rightarrow> \<exists>t. let s1 = terminated (tr_Name r) t (record_call (CallMetric (Reap reason)) s) in
            s' = (if RunnerID r = 0 then s1 else record_call (CallRemoveRunner (RunnerID r)) s1))"
  by (auto simp: reapTracked_def overdue_def runs_op runs_terminateInstance runs_removeRunnerByID Let_def
      split: runnerState.splits)

end
