(* ===== verification/Tracker_Refinement.thy ===== *)
theory Tracker_Refinement imports Tracker begin

text \<open>
  The tracker against its specification: a finite map from names to runners, as every
  sequence of calls sees it. The Go map and its mutex are one way to implement it.
\<close>

section \<open>Calls and their results\<close>

datatype tracker_op =
    OpAdd trackedRunner
  | OpRemove string
  | OpGet string
  | OpMarkIdle string time
  | OpMarkBusy string time
  | OpMarkForTermination string
  | OpTerminationPending string
  | OpSnapshot
  | OpNames
  | OpSize

datatype tracker_reply =
    NoResult
  | Entry "trackedRunner option"
  | Requested "bool \<times> bool"
  | Was "runnerState \<times> bool"
  | Pending bool
  | Runners "trackedRunner set"
  | Names "string set"
  | Size nat

fun tracker_apply :: "tracker_op \<Rightarrow> tracker \<Rightarrow> tracker_reply \<times> tracker" where
  "tracker_apply (OpAdd r) t = (NoResult, tracker_add r t)"
| "tracker_apply (OpRemove n) t = (NoResult, tracker_remove n t)"
| "tracker_apply (OpGet n) t = (Entry (tracker_get n t), t)"
| "tracker_apply (OpMarkIdle n now) t = map_prod Requested id (markIdle n now t)"
| "tracker_apply (OpMarkBusy n now) t = map_prod Was id (markBusy n now t)"
| "tracker_apply (OpMarkForTermination n) t = map_prod Was id (markForTermination n t)"
| "tracker_apply (OpTerminationPending n) t = (Pending (terminationPending n t), t)"
| "tracker_apply OpSnapshot t = (Runners (set (snapshot t)), t)"
| "tracker_apply OpNames t = (Names (names t), t)"
| "tracker_apply OpSize t = (Size (tracker_size t), t)"

text \<open>The same calls on a map.\<close>

type_synonym registry = "string \<rightharpoonup> trackedRunner"

fun map_apply :: "tracker_op \<Rightarrow> registry \<Rightarrow> tracker_reply \<times> registry" where
  "map_apply (OpAdd r) m = (NoResult, m(tr_Name r \<mapsto> r))"
| "map_apply (OpRemove n) m = (NoResult, m(n := None))"
| "map_apply (OpGet n) m = (Entry (m n), m)"
| "map_apply (OpMarkIdle n now) m =
     (case m n of
        None \<Rightarrow> (Requested (False, False), m)
      | Some v \<Rightarrow> (Requested (TerminationPending v, True),
          m(n \<mapsto> (if State v = StatusLaunching then v\<lparr>State := StatusIdle, ReadyAt := now\<rparr> else v))))"
| "map_apply (OpMarkBusy n now) m =
     (case m n of
        None \<Rightarrow> (Was (StatusLaunching, False), m)
      | Some v \<Rightarrow> (Was (State v, True), m(n \<mapsto> v\<lparr>BusyAt := now, State := StatusBusy\<rparr>)))"
| "map_apply (OpMarkForTermination n) m =
     (case m n of
        None \<Rightarrow> (Was (StatusLaunching, False), m)
      | Some v \<Rightarrow> (Was (State v, True), m(n \<mapsto> v\<lparr>TerminationPending := True\<rparr>)))"
| "map_apply (OpTerminationPending n) m =
     (Pending (case m n of None \<Rightarrow> False | Some v \<Rightarrow> TerminationPending v), m)"
| "map_apply OpSnapshot m = (Runners (ran m), m)"
| "map_apply OpNames m = (Names (dom m), m)"
| "map_apply OpSize m = (Size (card (dom m)), m)"

fun replies :: "(tracker_op \<Rightarrow> 's \<Rightarrow> tracker_reply \<times> 's) \<Rightarrow> tracker_op list \<Rightarrow> 's \<Rightarrow> tracker_reply list" where
  "replies app [] s = []"
| "replies app (p # ps) s = (case app p s of (r, s') \<Rightarrow> r # replies app ps s')"

section \<open>Simulation\<close>

lemmas lookups = tracker.lookup_add tracker.lookup_remove tracker.lookup_modify

lemmas entry_updates = idle_entry_def busy_entry_def pending_entry_def

lemma apply_inv: "tracker_inv t \<Longrightarrow> tracker_inv (snd (tracker_apply p t))"
  by (cases p) (auto simp: tracker.inv_add tracker.inv_remove markIdle_def markBusy_def
      markForTermination_def entry_updates intro!: tracker_inv_entry split: option.splits)

lemma snapshot_ran: "tracker_inv t \<Longrightarrow> set (snapshot t) = ran (map_of t)"
  by (simp add: snapshot_def tracker_inv_def ran_distinct)

lemma apply_simulates:
  "tracker_inv t \<Longrightarrow> map_apply p (map_of t) = map_prod id map_of (tracker_apply p t)"
  by (cases p) (auto simp: lookups tracker_get_def markIdle_def markBusy_def markForTermination_def
      terminationPending_def snapshot_ran names_def dom_map_of_conv_image_fst tracker_size_dom
      entry_updates fun_eq_iff split: option.splits)

lemma replies_simulate:
  "tracker_inv t \<Longrightarrow> replies tracker_apply ps t = replies map_apply ps (map_of t)"
proof (induction ps arbitrary: t)
  case (Cons p ps)
  obtain r t' where p: "tracker_apply p t = (r, t')" by fastforce
  then have "map_apply p (map_of t) = (r, map_of t')" using apply_simulates [OF Cons.prems, of p] by simp
  with p Cons.IH [of t'] apply_inv [OF Cons.prems, of p] show ?case by simp
qed simp

text \<open>
  C17: no sequence of calls can tell the tracker from a map from names to runners: every call
  returns what it would return on the map, from the empty tracker on.
\<close>

theorem tracker_refines_map:
  "replies tracker_apply ps newInstanceTracker = replies map_apply ps (\<lambda>_. None)"
  using replies_simulate [OF tracker.inv_empty, of ps] by (simp add: tracker.lookup_empty)

text \<open>
  The life of an entry goes one way. As long as a runner is not added anew under its
  name, every call keeps its name, registration, mint time, shape and scale set, its state
  never goes back (launching, idle, busy), a requested termination stays requested, and a
  time stamp changes only together with the state it stamps.
\<close>

theorem entry_goes_forward:
  assumes "tracker_inv t" "tracker_get n t = Some r" "tracker_get n (snd (tracker_apply p t)) = Some r'"
    and "\<And>x. p = OpAdd x \<Longrightarrow> tr_Name x \<noteq> n"
  shows "State r \<le> State r' \<and> (TerminationPending r \<longrightarrow> TerminationPending r')
     \<and> tr_Name r' = tr_Name r \<and> RunnerID r' = RunnerID r \<and> MintedAt r' = MintedAt r \<and> Spec r' = Spec r
     \<and> tr_ScaleSetID r' = tr_ScaleSetID r
     \<and> (ReadyAt r' \<noteq> ReadyAt r \<longrightarrow> State r = StatusLaunching \<and> State r' = StatusIdle)
     \<and> (BusyAt r' \<noteq> BusyAt r \<longrightarrow> State r' = StatusBusy)"
  using assms
  by (cases p) (auto simp: tracker_get_def lookups markIdle_def markBusy_def markForTermination_def
      entry_updates less_eq_runnerState_def iota_def split: option.splits if_splits runnerState.splits)

text \<open>A job is assigned before the launch returns: the runner stays busy.\<close>

theorem entry_goes_forward_witness:
  "let r = \<lparr>tr_Name = ''r1'', RunnerID = 11, MintedAt = 1, ReadyAt = 0, BusyAt = 5,
            Spec = \<lparr>spec_VCPUs = 4, spec_MemoryMB = 8192, spec_DiskGB = 20, spec_Arch = ''amd64''\<rparr>,
            tr_ScaleSetID = 7, State = StatusBusy, TerminationPending = False\<rparr>;
       t = tracker_add r newInstanceTracker in
   \<exists>r'. tracker_get ''r1'' (snd (tracker_apply (OpMarkIdle ''r1'' 9) t)) = Some r'
     \<and> State r' = StatusBusy \<and> StatusBusy \<le> State r'"
proof -
  let ?r = "\<lparr>tr_Name = ''r1'', RunnerID = 11, MintedAt = 1, ReadyAt = 0, BusyAt = 5,
            Spec = \<lparr>spec_VCPUs = 4, spec_MemoryMB = 8192, spec_DiskGB = 20, spec_Arch = ''amd64''\<rparr>,
            tr_ScaleSetID = 7, State = StatusBusy, TerminationPending = False\<rparr>"
  let ?t = "tracker_add ?r newInstanceTracker"
  have "tracker_inv ?t" by (rule tracker.inv_add [OF tracker.inv_empty])
  moreover have g: "tracker_get ''r1'' ?t = Some ?r"
    "tracker_get ''r1'' (snd (tracker_apply (OpMarkIdle ''r1'' 9) ?t)) = Some ?r"
    by (simp_all add: tracker_get_def tracker_add_def newInstanceTracker_def markIdle_def idle_entry_def)
  ultimately show ?thesis using entry_goes_forward [of ?t "''r1''" ?r "OpMarkIdle ''r1'' 9" ?r] by simp
qed

end
