(* ===== verification/Incus_Client.thy ===== *)
theory Incus_Client imports Launch GoStrings begin

text \<open>
  internal/incus/client.go: the adapter over the upstream Incus client. The upstream is a
  record of functions, what the daemon answers each request; every operation returns its
  result together with the requests it made, in order.
\<close>

section \<open>The upstream\<close>

text \<open>
  An error of the upstream: the HTTP status api.StatusErrorCheck finds in it, if any, and its
  text.
\<close>

record api_error =
  err_status :: "int option"
  err_text :: string

record InstanceSource =
  src_Type :: string
  src_Protocol :: string
  src_Server :: string
  src_Alias :: string
  src_Fingerprint :: string

record InstancesPost =
  post_Name :: string
  post_Type :: string
  post_Source :: InstanceSource
  post_Start :: bool
  post_Architecture :: string
  post_Description :: string
  post_Config :: config_map
  post_Devices :: "string \<rightharpoonup> config_map"
  post_Profiles :: "string list"
  post_Ephemeral :: bool

record InstanceStatePut =
  st_Action :: string
  st_Force :: bool
  st_Timeout :: int

record api_Instance =
  ai_Name :: string
  ai_Description :: string
  ai_Type :: string
  ai_Status :: string
  ai_Project :: string
  ai_Config :: config_map

datatype request =
    GetImageAlias string
  | CreateInstance InstancesPost
  | WaitCreate string
  | UpdateInstanceState string InstanceStatePut
  | WaitState string
  | DeleteInstance string
  | WaitDelete string
  | GetInstance string
  | GetInstances string
  | Disconnect

text \<open>The project a list asks for is an argument; the other requests use the connection's.\<close>

record upstream =
  us_alias :: "string \<Rightarrow> (api_error, string) result"
  us_create :: "InstancesPost \<Rightarrow> api_error option"
  us_wait_create :: "string \<Rightarrow> api_error option"
  us_state :: "string \<Rightarrow> api_error option"
  us_wait_state :: "string \<Rightarrow> api_error option"
  us_delete :: "string \<Rightarrow> api_error option"
  us_wait_delete :: "string \<Rightarrow> api_error option"
  us_get :: "string \<Rightarrow> (api_error, api_Instance option) result"
  us_list :: "string \<Rightarrow> (api_error, api_Instance list) result"

datatype client_error =
    RequiresCertAndKey
  | ReadCert string
  | ReadKey string
  | ReadServerCert string
  | Dialing string
  | NameRequired
  | ArchitectureUnknown
  | TypeRequired
  | ImageRequired
  | ResolveAlias string api_error
  | CreateFailed string api_error
  | LaunchFailed string api_error
  | NotFoundAfterLaunch string
  | GetFailed string api_error
  | StopFailed string api_error
  | WaitStopFailed string api_error
  | DeleteFailed string api_error
  | WaitDeleteFailed string api_error
  | ListFailed api_error

section \<open>Helpers\<close>

definition isNotFound :: "api_error \<Rightarrow> bool" where
  "isNotFound e = (err_status e = Some 404)"

definition isAlreadyStopped :: "api_error \<Rightarrow> bool" where
  "isAlreadyStopped e = (contains (err_text e) ''already stopped'' \<or> contains (err_text e) ''is not running'')"

definition validateLaunch :: "LaunchRequest \<Rightarrow> client_error option" where
  "validateLaunch req =
     (if lr_Name req = [] then Some NameRequired
      else if lr_Architecture req \<noteq> ''amd64'' \<and> lr_Architecture req \<noteq> ''arm64'' then Some ArchitectureUnknown
      else if lr_Type req = [] then Some TypeRequired
      else if Alias (lr_Image req) = [] \<and> Server (lr_Image req) = [] then Some ImageRequired
      else None)"

definition reqArchitecture :: "string \<Rightarrow> string" where
  "reqArchitecture arch = (if arch = ''arm64'' then ''aarch64'' else ''x86_64'')"

text \<open>A copy of a Go map has the same entries.\<close>

definition cloneStringMap :: "config_map \<Rightarrow> config_map" where
  "cloneStringMap m = (\<lambda>k. m k)"

definition cloneDevices :: "(string \<rightharpoonup> config_map) \<Rightarrow> (string \<rightharpoonup> config_map)" where
  "cloneDevices m = (\<lambda>k. map_option cloneStringMap (m k))"

definition toInstance :: "api_Instance \<Rightarrow> Instance" where
  "toInstance a =
     \<lparr>inst_Name = ai_Name a, inst_Description = ai_Description a, inst_Type = ai_Type a,
      inst_Status = ai_Status a, inst_Project = ai_Project a, inst_Config = cloneStringMap (ai_Config a)\<rparr>"

section \<open>Connecting\<close>

record clientConfig =
  cc_SocketPath :: string
  cc_URL :: string
  cc_CertFile :: string
  cc_KeyFile :: string
  cc_ServerCertFile :: string
  cc_InsecureSkipVerify :: bool
  cc_Project :: string
  cc_UserAgent :: string
  cc_RequestTimeout :: duration
  cc_HTTPClient :: bool

datatype dial_target =
    ConnectHTTP
  | ConnectTLS string string string string
  | ConnectUnix string

text \<open>
  dial up to the upstream call: the endpoint with the certificate, the key and the pinned
  server certificate (empty when none is configured).
\<close>

definition dial :: "(string \<Rightarrow> (string, string) result) \<Rightarrow> clientConfig \<Rightarrow> (client_error, dial_target) result" where
  "dial readFile c =
     (if cc_HTTPClient c then Inr ConnectHTTP
      else if cc_URL c \<noteq> [] then
        (if cc_CertFile c = [] \<or> cc_KeyFile c = [] then Inl RequiresCertAndKey
         else case readFile (cc_CertFile c) of Inl e \<Rightarrow> Inl (ReadCert (cc_CertFile c)) | Inr cert \<Rightarrow>
           case readFile (cc_KeyFile c) of Inl e \<Rightarrow> Inl (ReadKey (cc_KeyFile c)) | Inr key \<Rightarrow>
           if cc_ServerCertFile c \<noteq> [] then
             (case readFile (cc_ServerCertFile c) of
                Inl e \<Rightarrow> Inl (ReadServerCert (cc_ServerCertFile c))
              | Inr srv \<Rightarrow> Inr (ConnectTLS (cc_URL c) cert key srv))
           else Inr (ConnectTLS (cc_URL c) cert key []))
      else Inr (ConnectUnix (if cc_SocketPath c = [] then ''/var/lib/incus/unix.socket'' else cc_SocketPath c)))"

definition chooseUserAgent :: "string \<Rightarrow> string" where
  "chooseUserAgent ua = (if ua = [] then ''incuse'' else ua)"

record realClient =
  rc_target :: dial_target
  rc_project :: string
  rc_userAgent :: string
  rc_timeout :: duration
  rc_insecure :: bool

text \<open>\<open>connect\<close> is the upstream's Connect function, an error or none.\<close>

definition Connect ::
  "(string \<Rightarrow> (string, string) result) \<Rightarrow> (dial_target \<Rightarrow> string option) \<Rightarrow> clientConfig
     \<Rightarrow> (client_error, realClient) result" where
  "Connect readFile connect c =
     (let requestTimeout = (if cc_RequestTimeout c \<le> 0 then 10 * minute else cc_RequestTimeout c) in
      case dial readFile c of Inl e \<Rightarrow> Inl e | Inr target \<Rightarrow>
      case connect target of Some e \<Rightarrow> Inl (Dialing e) | None \<Rightarrow>
      Inr \<lparr>rc_target = target, rc_project = cc_Project c, rc_userAgent = chooseUserAgent (cc_UserAgent c),
           rc_timeout = requestTimeout, rc_insecure = cc_InsecureSkipVerify c\<rparr>)"

text \<open>Close ends the connection, when there is a server to end it with.\<close>

definition client_Close :: "realClient option \<Rightarrow> request list" where
  "client_Close c = (if c = None then [] else [Disconnect])"

section \<open>The operations\<close>

definition Get :: "upstream \<Rightarrow> string \<Rightarrow> (client_error, Instance option) result \<times> request list" where
  "Get us name =
     (case us_get us name of
        Inl e \<Rightarrow> (if isNotFound e then Inr None else Inl (GetFailed name e))
      | Inr got \<Rightarrow> Inr (map_option toInstance got), [GetInstance name])"

text \<open>The source of a launch: a local alias is resolved to a fingerprint first.\<close>

definition launch_source ::
  "upstream \<Rightarrow> LaunchRequest \<Rightarrow> (client_error, InstanceSource) result \<times> request list" where
  "launch_source us req =
     (let source = \<lparr>src_Type = ''image'', src_Protocol = Protocol (lr_Image req),
                    src_Server = Server (lr_Image req), src_Alias = Alias (lr_Image req),
                    src_Fingerprint = []\<rparr> in
      if src_Server source = [] \<and> src_Alias source \<noteq> [] then
        (case us_alias us (Alias (lr_Image req)) of
           Inl e \<Rightarrow> Inl (ResolveAlias (Alias (lr_Image req)) e)
         | Inr target \<Rightarrow> Inr (source\<lparr>src_Alias := [], src_Fingerprint := target, src_Protocol := []\<rparr>),
         [GetImageAlias (Alias (lr_Image req))])
      else (Inr source, []))"

definition launch_post :: "LaunchRequest \<Rightarrow> InstanceSource \<Rightarrow> InstancesPost" where
  "launch_post req source =
     \<lparr>post_Name = lr_Name req, post_Type = lr_Type req, post_Source = source, post_Start = True,
      post_Architecture = reqArchitecture (lr_Architecture req), post_Description = lr_Description req,
      post_Config = cloneStringMap (lr_Config req), post_Devices = cloneDevices (lr_Devices req),
      post_Profiles = lr_Profiles req, post_Ephemeral = lr_Ephemeral req\<rparr>"

definition client_Launch ::
  "upstream \<Rightarrow> LaunchRequest \<Rightarrow> (client_error, Instance) result \<times> request list" where
  "client_Launch us req =
     (case validateLaunch req of Some e \<Rightarrow> (Inl e, []) | None \<Rightarrow>
      let (src, reqs) = launch_source us req in
      case src of Inl e \<Rightarrow> (Inl e, reqs) | Inr source \<Rightarrow>
      let post = launch_post req source; reqs = reqs @ [CreateInstance post] in
      case us_create us post of Some e \<Rightarrow> (Inl (CreateFailed (lr_Name req) e), reqs) | None \<Rightarrow>
      let reqs = reqs @ [WaitCreate (lr_Name req)] in
      case us_wait_create us (lr_Name req) of Some e \<Rightarrow> (Inl (LaunchFailed (lr_Name req) e), reqs) | None \<Rightarrow>
      let (got, greqs) = Get us (lr_Name req); reqs = reqs @ greqs in
      case got of
        Inl e \<Rightarrow> (Inl e, reqs)
      | Inr None \<Rightarrow> (Inl (NotFoundAfterLaunch (lr_Name req)), reqs)
      | Inr (Some inst) \<Rightarrow> (Inr inst, reqs))"

definition client_Stop :: "upstream \<Rightarrow> string \<Rightarrow> client_error option \<times> request list" where
  "client_Stop us name =
     (let r1 = UpdateInstanceState name \<lparr>st_Action = ''stop'', st_Force = True, st_Timeout = 30\<rparr> in
      case us_state us name of
        Some e \<Rightarrow> (if isNotFound e then None else Some (StopFailed name e), [r1])
      | None \<Rightarrow>
          (case us_wait_state us name of
             Some e \<Rightarrow> if isAlreadyStopped e then None else Some (WaitStopFailed name e)
           | None \<Rightarrow> None, [r1, WaitState name]))"

definition client_Delete :: "upstream \<Rightarrow> string \<Rightarrow> client_error option \<times> request list" where
  "client_Delete us name =
     (case us_delete us name of
        Some e \<Rightarrow> (if isNotFound e then None else Some (DeleteFailed name e), [DeleteInstance name])
      | None \<Rightarrow>
          (case us_wait_delete us name of Some e \<Rightarrow> Some (WaitDeleteFailed name e) | None \<Rightarrow> None,
           [DeleteInstance name, WaitDelete name]))"

definition List :: "upstream \<Rightarrow> string \<Rightarrow> string \<Rightarrow> (client_error, Instance list) result \<times> request list" where
  "List us project projectFilter =
     (let p = (if projectFilter \<noteq> [] \<and> projectFilter \<noteq> project then projectFilter else project) in
      (case us_list us p of Inl e \<Rightarrow> Inl (ListFailed e) | Inr got \<Rightarrow> Inr (map toInstance got),
       [GetInstances p]))"

section \<open>What a launch sends\<close>

lemma cloneStringMap_id [simp]: "cloneStringMap m = m"
  by (simp add: cloneStringMap_def)

lemma cloneDevices_id [simp]: "cloneDevices m = m"
proof -
  have "cloneStringMap = id" by (rule ext) simp
  then show ?thesis by (simp add: cloneDevices_def option.map_id0)
qed

lemma launch_source_Inr:
  "launch_source us req = (Inr source, reqs) \<Longrightarrow>
     src_Type source = ''image'' \<and> (\<forall>p. CreateInstance p \<notin> set reqs)
     \<and> (if Server (lr_Image req) = [] \<and> Alias (lr_Image req) \<noteq> []
        then us_alias us (Alias (lr_Image req)) = Inr (src_Fingerprint source)
          \<and> src_Alias source = [] \<and> src_Protocol source = [] \<and> src_Server source = []
        else src_Alias source = Alias (lr_Image req) \<and> src_Server source = Server (lr_Image req)
          \<and> src_Protocol source = Protocol (lr_Image req) \<and> src_Fingerprint source = [])"
  by (auto simp: launch_source_def Let_def split: if_splits sum.splits)

lemma launch_source_no_create: "CreateInstance p \<notin> set (snd (launch_source us req))"
  by (simp add: launch_source_def Let_def)

lemma Get_requests: "snd (Get us n) = [GetInstance n]"
  by (simp add: Get_def)

lemma client_Launch_post:
  assumes "CreateInstance p \<in> set (snd (client_Launch us req))"
  shows "validateLaunch req = None \<and> (\<exists>source reqs. launch_source us req = (Inr source, reqs) \<and> p = launch_post req source)"
proof -
  obtain src reqs where src: "launch_source us req = (src, reqs)" by fastforce
  with launch_source_no_create [of p us req] have "CreateInstance p \<notin> set reqs" by simp
  with assms src show ?thesis
    by (cases src) (auto simp: client_Launch_def Let_def Get_requests case_prod_beta
        split: option.splits sum.splits)
qed

text \<open>
  What a creation request has to carry for a launch request: its name, type, configuration,
  devices, profiles and ephemeral flag, the kernel name of its architecture, and as the image
  source the remote alias or, for a local alias, only the fingerprint the daemon resolved; and
  it asks for the instance to be started.
\<close>

definition carries :: "upstream \<Rightarrow> LaunchRequest \<Rightarrow> InstancesPost \<Rightarrow> bool" where
  "carries us req p \<longleftrightarrow> post_Start p \<and> post_Name p = lr_Name req \<and> post_Type p = lr_Type req
     \<and> post_Config p = lr_Config req \<and> post_Devices p = lr_Devices req
     \<and> post_Profiles p = lr_Profiles req \<and> post_Ephemeral p = lr_Ephemeral req
     \<and> post_Description p = lr_Description req
     \<and> post_Architecture p = (if lr_Architecture req = ''arm64'' then ''aarch64'' else ''x86_64'')
     \<and> src_Type (post_Source p) = ''image'' \<and> src_Server (post_Source p) = Server (lr_Image req)
     \<and> (if Server (lr_Image req) = []
        then us_alias us (Alias (lr_Image req)) = Inr (src_Fingerprint (post_Source p))
          \<and> src_Alias (post_Source p) = [] \<and> src_Protocol (post_Source p) = []
        else src_Alias (post_Source p) = Alias (lr_Image req) \<and> src_Fingerprint (post_Source p) = []
          \<and> src_Protocol (post_Source p) = Protocol (lr_Image req))"

lemma source_carries:
  assumes "validateLaunch req = None"
  shows "fst (launch_source us req) = Inr source \<longleftrightarrow> carries us req (launch_post req source)"
  using assms by (cases source) (auto simp: launch_source_def carries_def launch_post_def reqArchitecture_def Let_def
      validateLaunch_def split: if_splits sum.splits)

lemma carries_post: "carries us req p \<Longrightarrow> p = launch_post req (post_Source p)"
  by (cases p) (simp add: carries_def launch_post_def reqArchitecture_def)

lemma posts_carry:
  "validateLaunch req = None \<Longrightarrow>
     (\<exists>source. fst (launch_source us req) = Inr source \<and> P (launch_post req source)) \<longleftrightarrow> (\<exists>p. carries us req p \<and> P p)"
  using source_carries carries_post by metis

lemma source_requests:
  "validateLaunch req = None \<Longrightarrow>
     snd (launch_source us req) = (if Server (lr_Image req) = [] then [GetImageAlias (Alias (lr_Image req))] else [])"
  by (auto simp: launch_source_def Let_def validateLaunch_def split: if_splits)

text \<open>
  A launch is reported as successful exactly when the request is valid, the image source
  resolves, the daemon accepted the creation, the operation ended without error and the
  instance can be read back, and the answer is that instance.
\<close>

lemma client_Launch_Inr:
  "client_Launch us req = (Inr inst, reqs) \<longleftrightarrow>
     validateLaunch req = None
     \<and> (\<exists>source. fst (launch_source us req) = Inr source \<and> us_create us (launch_post req source) = None
          \<and> reqs = snd (launch_source us req) @ [CreateInstance (launch_post req source),
              WaitCreate (lr_Name req), GetInstance (lr_Name req)])
     \<and> us_wait_create us (lr_Name req) = None
     \<and> (\<exists>a. us_get us (lr_Name req) = Inr (Some a) \<and> inst = toInstance a)"
proof -
  obtain src sreqs where src: "launch_source us req = (src, sreqs)" by fastforce
  show ?thesis
    by (cases src) (auto simp: client_Launch_def src Let_def Get_def case_prod_beta
        split: option.splits sum.splits if_splits)
qed

text \<open>
  C38: a launch succeeds exactly when the request is valid and the daemon resolved the image,
  if it is a local one, accepted a creation request that carries what was asked for, finished
  it without error and then knows the instance; these are the requests made, in this order:
  the alias, the creation, the wait, the read; and the answer is the instance read. Whether
  or not a launch succeeds, no other instance is ever asked for.
\<close>

theorem Launch_creates_requested:
  "(client_Launch us req = (Inr inst, reqs) \<longleftrightarrow>
      validateLaunch req = None
      \<and> (\<exists>p. carries us req p \<and> us_create us p = None
           \<and> reqs = (if Server (lr_Image req) = [] then [GetImageAlias (Alias (lr_Image req))] else [])
               @ [CreateInstance p, WaitCreate (lr_Name req), GetInstance (lr_Name req)])
      \<and> us_wait_create us (lr_Name req) = None
      \<and> (\<exists>a. us_get us (lr_Name req) = Inr (Some a) \<and> inst = toInstance a))
   \<and> (CreateInstance p \<in> set (snd (client_Launch us req)) \<longrightarrow> validateLaunch req = None \<and> carries us req p)"
proof (cases "validateLaunch req")
  case (Some e)
  then show ?thesis using client_Launch_post [of p us req] by (auto simp: client_Launch_Inr)
next
  case None
  have "carries us req p" if "CreateInstance p \<in> set (snd (client_Launch us req))"
    using client_Launch_post [OF that] source_carries [OF None] by fastforce
  then show ?thesis
    unfolding client_Launch_Inr source_requests [OF None]
    using posts_carry [OF None, of us "\<lambda>p. us_create us p = None
      \<and> reqs = (if Server (lr_Image req) = [] then [GetImageAlias (Alias (lr_Image req))] else [])
          @ [CreateInstance p, WaitCreate (lr_Name req), GetInstance (lr_Name req)]"] None by metis
qed

definition baked_request :: LaunchRequest where
  "baked_request =
     \<lparr>lr_Name = ''r1'', lr_Architecture = ''arm64'', lr_Type = ''virtual-machine'', lr_Profiles = [''p''],
      lr_Image = \<lparr>Server = [], Protocol = [], Alias = ''incuse-runner''\<rparr>, lr_Config = (\<lambda>_. None),
      lr_Devices = (\<lambda>_. None), lr_Ephemeral = True, lr_Description = []\<rparr>"

definition sample_upstream :: upstream where
  "sample_upstream =
     \<lparr>us_alias = (\<lambda>_. Inr ''f1''), us_create = (\<lambda>_. None), us_wait_create = (\<lambda>_. None),
      us_state = (\<lambda>_. None), us_wait_state = (\<lambda>_. None), us_delete = (\<lambda>_. None),
      us_wait_delete = (\<lambda>_. None), us_get = (\<lambda>_. Inr None), us_list = (\<lambda>_. Inr [])\<rparr>"

definition sample_instance :: api_Instance where
  "sample_instance = \<lparr>ai_Name = ''r1'', ai_Description = [], ai_Type = ''virtual-machine'', ai_Status = ''Running'',
     ai_Project = ''default'', ai_Config = (\<lambda>_. None)\<rparr>"

theorem Launch_creates_requested_witness:
  "\<exists>p reqs. CreateInstance p \<in> set reqs \<and> src_Fingerprint (post_Source p) = ''f1''
     \<and> post_Architecture p = ''aarch64'' \<and> post_Ephemeral p
     \<and> client_Launch (sample_upstream\<lparr>us_get := \<lambda>_. Inr (Some sample_instance)\<rparr>) baked_request
         = (Inr (toInstance sample_instance), reqs)"
proof -
  let ?us = "sample_upstream\<lparr>us_get := \<lambda>_. Inr (Some sample_instance)\<rparr>"
  have "fst (client_Launch ?us baked_request) = Inr (toInstance sample_instance)"
    by (simp add: client_Launch_def validateLaunch_def launch_source_def Let_def Get_def
        sample_upstream_def baked_request_def)
  then obtain reqs where r: "client_Launch ?us baked_request = (Inr (toInstance sample_instance), reqs)"
    by (metis prod.collapse)
  note ok = Launch_creates_requested [of ?us baked_request "toInstance sample_instance" reqs, THEN conjunct1, THEN iffD1, OF r]
  then obtain p where p: "CreateInstance p \<in> set reqs" by (auto simp: baked_request_def)
  with r have "carries ?us baked_request p"
    using Launch_creates_requested [of ?us baked_request "toInstance sample_instance" reqs p] by simp
  then show ?thesis using p r
    by (intro exI [of _ p] exI [of _ reqs]) (simp add: carries_def sample_upstream_def baked_request_def)
qed

section \<open>Stopping and deleting\<close>

text \<open>
  Stop and Delete are idempotent for their callers: both succeed on an instance that is
  gone, Stop also on one that has stopped by itself, and every other error of the daemon is
  reported; at most one stop or delete is requested, always forced.
\<close>

theorem Stop_Delete_outcomes:
  "(fst (client_Stop us n) = None \<longleftrightarrow>
      (case us_state us n of
         Some e \<Rightarrow> isNotFound e
       | None \<Rightarrow> (case us_wait_state us n of None \<Rightarrow> True | Some e \<Rightarrow> isAlreadyStopped e)))
   \<and> (fst (client_Delete us n) = None \<longleftrightarrow>
      (case us_delete us n of
         Some e \<Rightarrow> isNotFound e
       | None \<Rightarrow> us_wait_delete us n = None))
   \<and> hd (snd (client_Stop us n)) = UpdateInstanceState n \<lparr>st_Action = ''stop'', st_Force = True, st_Timeout = 30\<rparr>
   \<and> hd (snd (client_Delete us n)) = DeleteInstance n"
  by (auto simp: client_Stop_def client_Delete_def Let_def split: option.splits)

end
