(* ===== verification/Recovery.thy ===== *)
theory Recovery imports Incus_Client Orchestrator_Targets begin

text \<open>
  From a launch to the drift sweep of a later process: the orchestrator's request, the
  Incus client that posts it, the daemon that keeps the instance, the list the client reads
  back, and the filter of the sweep. The daemon is outside the repository; what it does is
  the hypothesis \<open>keeps_post\<close>.
\<close>

text \<open>
  The documented behaviour of the daemon: an instance keeps the name and the configuration
  keys it was created with; keys of the daemon's own may be added.
\<close>

definition keeps_post :: "InstancesPost \<Rightarrow> api_Instance \<Rightarrow> bool" where
  "keeps_post p a \<longleftrightarrow> ai_Name a = post_Name p \<and> post_Config p \<subseteq>\<^sub>m ai_Config a"

lemma created_tags:
  assumes "CreateInstance p \<in> set (snd (client_Launch us (buildLaunchRequest i)))" "keeps_post p a"
  shows "inst_Name (toInstance a) = in_runnerName i"
    and "inst_Config (toInstance a) metaManaged = Some ''true''"
    and "inst_Config (toInstance a) metaScaleSetID = Some (itoa (in_scaleSetID i))"
proof -
  obtain source where p: "p = launch_post (buildLaunchRequest i) source"
    using client_Launch_post [OF assms(1)] by blast
  have cfg: "post_Config p = launch_config i" "post_Name p = in_runnerName i"
    by (simp_all add: p launch_post_def buildLaunchRequest_def Let_def)
  have keep: "ai_Config a k = Some v" if "launch_config i k = Some v" for k v
    using assms(2) that by (force simp: keeps_post_def cfg map_le_def dom_def)
  show "inst_Name (toInstance a) = in_runnerName i"
    using assms(2) by (simp add: toInstance_def keeps_post_def cfg)
  show "inst_Config (toInstance a) metaManaged = Some ''true''"
    "inst_Config (toInstance a) metaScaleSetID = Some (itoa (in_scaleSetID i))"
    using keep launch_config_meta by (simp_all add: toInstance_def)
qed

text \<open>
  C13: What one process leaves behind the next one finds. Whatever instance the client asked
  the daemon to create for a runner, as long as the daemon lists it the drift sweep of any
  orchestrator selects it exactly when the scale-set IDs agree and the runner is not tracked;
  so an orchestrator that has just been constructed for the same scale set selects it, and
  the other classes on the host never do.
\<close>

theorem launched_instances_swept:
  assumes "CreateInstance p \<in> set (snd (client_Launch us (buildLaunchRequest i)))"
    and "fst (List us' project wanted) = Inr remote"
    and "us_list us' (if wanted \<noteq> [] \<and> wanted \<noteq> project then wanted else project) = Inr listed"
    and "a \<in> set listed" "keeps_post p a"
  shows "\<exists>inst \<in> set remote. inst_Name inst = in_runnerName i
     \<and> (\<forall>o2 known. is_orphan o2 known inst \<longleftrightarrow> in_scaleSetID i = o_scaleSetID o2 \<and> in_runnerName i \<notin> known)
     \<and> (\<forall>u addr old c o2 s2. New u addr (in_scaleSetID i) old c = Inr (o2, s2) \<longrightarrow> is_orphan o2 (names (s_tracker s2)) inst)"
proof (intro bexI conjI allI impI)
  let ?inst = "toInstance a"
  note tags = created_tags [OF assms(1,5)]
  show "?inst \<in> set remote" using assms(2-4) by (auto simp: List_def Let_def split: if_splits)
  show "inst_Name ?inst = in_runnerName i" by (rule tags)
  show sel: "is_orphan o2 known ?inst \<longleftrightarrow> in_scaleSetID i = o_scaleSetID o2 \<and> in_runnerName i \<notin> known" for o2 known
    using tags by (auto simp: is_orphan_own own_def cfg_get_def itoa_inj)
  fix u addr old c o2 s2
  assume "New u addr (in_scaleSetID i) old c = Inr (o2, s2)"
  then have "o_scaleSetID o2 = in_scaleSetID i" "s_tracker s2 = newInstanceTracker"
    by (auto simp: New_def Let_def init_shared_def split: option.splits)
  then show "is_orphan o2 (names (s_tracker s2)) ?inst"
    by (simp add: sel names_def newInstanceTracker_def)
qed

text \<open>An upstream that creates whatever it is asked to, and lists the runner with a key of its own.\<close>

definition sample_upstream :: "api_Instance list \<Rightarrow> upstream" where
  "sample_upstream is =
     \<lparr>us_alias = (\<lambda>_. Inr ''f00d''), us_create = (\<lambda>_. None), us_wait_create = (\<lambda>_. None), us_state = (\<lambda>_. None),
      us_wait_state = (\<lambda>_. None), us_delete = (\<lambda>_. None), us_wait_delete = (\<lambda>_. None),
      us_get = (\<lambda>_. Inr None), us_list = (\<lambda>_. Inr is)\<rparr>"

definition sample_inputs :: launchInputs where
  "sample_inputs = launch_inputs sample_orch ''r1'' [] 0"

definition sample_listed :: api_Instance where
  "sample_listed = \<lparr>ai_Name = ''r1'', ai_Description = [], ai_Type = ''virtual-machine'', ai_Status = ''Running'',
     ai_Project = ''incuse'', ai_Config = (launch_config sample_inputs)(''volatile.uuid'' \<mapsto> ''0'')\<rparr>"

theorem launched_instances_swept_witness:
  "\<exists>inst. is_orphan sample_orch (names (s_tracker sample_shared)) inst \<and> inst_Name inst = ''r1''
     \<and> \<not> is_orphan (sample_orch\<lparr>o_scaleSetID := 8\<rparr>) {} inst"
proof -
  let ?us = "sample_upstream [sample_listed]"
  have n: "in_runnerName sample_inputs = ''r1''" "in_scaleSetID sample_inputs = 7"
    by (simp_all add: sample_inputs_def launch_inputs_def sample_orch_def)
  have v: "validateLaunch (buildLaunchRequest sample_inputs) = None"
    by (simp add: validateLaunch_def buildLaunchRequest_def sample_inputs_def launch_inputs_def sample_defs Let_def
        InstanceTypeVM_incus_def InstanceTypeContainer_incus_def)
  have "\<exists>source reqs. launch_source ?us (buildLaunchRequest sample_inputs) = (Inr source, reqs)"
    by (simp add: launch_source_def sample_upstream_def Let_def)
  then obtain source reqs where src: "launch_source ?us (buildLaunchRequest sample_inputs) = (Inr source, reqs)" by blast
  let ?p = "launch_post (buildLaunchRequest sample_inputs) source"
  have p: "CreateInstance ?p \<in> set (snd (client_Launch ?us (buildLaunchRequest sample_inputs)))"
    by (simp add: client_Launch_def v src Let_def case_prod_beta split: option.splits sum.splits)
  have "launch_config sample_inputs ''volatile.uuid'' = None" by (simp add: launch_config_def Let_def meta_keys)
  then have k: "keeps_post ?p sample_listed"
    by (auto simp: keeps_post_def launch_post_def sample_listed_def buildLaunchRequest_def Let_def n map_le_def)
  have l: "fst (List ?us ''incuse'' ''incuse'') = Inr [toInstance sample_listed]"
    "us_list ?us (if ''incuse'' \<noteq> [] \<and> ''incuse'' \<noteq> ''incuse'' then ''incuse'' else ''incuse'') = Inr [sample_listed]"
    by (simp_all add: List_def sample_upstream_def)
  from launched_instances_swept [OF p l _ k] obtain inst where i: "inst_Name inst = ''r1''"
    "\<And>o2 known. is_orphan o2 known inst \<longleftrightarrow> 7 = o_scaleSetID o2 \<and> ''r1'' \<notin> known"
    "\<And>u addr old c o2 s2. New u addr 7 old c = Inr (o2, s2) \<Longrightarrow> is_orphan o2 (names (s_tracker s2)) inst"
    by (auto simp: n)
  then have "\<not> is_orphan (sample_orch\<lparr>o_scaleSetID := 8\<rparr>) {} inst" by simp
  with i(1) i(3) [OF sample_New] show ?thesis by blast
qed

end
