(* ===== verification/Resolver.thy ===== *)
theory Resolver imports Cloudinit begin

text \<open>
  internal/runner/resolver.go: the resolver of the latest actions/runner release, with its
  cache. The HTTP exchange and the JSON decoder are arguments; Resolve holds the mutex for
  its whole body, so one call is one atomic step on the cache.
\<close>

section \<open>Data\<close>

record cachedRelease =
  cr_release :: Release
  cr_at :: time

record githubReleaseAsset =
  asset_Name :: string
  asset_DownloadURL :: string
  Digest :: string

record githubReleaseResponse =
  TagName :: string
  Assets :: "githubReleaseAsset list"

type_synonym release_cache = "string \<rightharpoonup> cachedRelease"

record LatestResolver =
  endpoint :: string
  ttl :: duration
  cached :: release_cache

definition NewLatestResolver :: "duration \<Rightarrow> LatestResolver" where
  "NewLatestResolver d =
     \<lparr>endpoint = ''https://api.github.com/repos/actions/runner/releases/latest'',
      ttl = d, cached = Map.empty\<rparr>"

text \<open>One constructor per error of the source, with what its message prints.\<close>

datatype resolve_error =
    BuildRequest string
  | CallReleases string
  | BadStatus int
  | DecodeReleases string
  | MissingTagName
  | UnsupportedArch string
  | MissingDigest string
  | InvalidDigest string
  | NoAsset string string

section \<open>fetch\<close>

definition releaseArch :: "(nat \<Rightarrow> nat) \<Rightarrow> string \<Rightarrow> (resolve_error, string) result" where
  "releaseArch u arch =
     (if to_lower u arch = ''amd64'' then Inr ''x64''
      else if to_lower u arch = ''arm64'' then Inr ''arm64''
      else Inl (UnsupportedArch arch))"

text \<open>The strings hex.DecodeString accepts.\<close>

definition is_hex :: "char \<Rightarrow> bool" where
  "is_hex c = (is_digit c \<or> 97 \<le> byte c \<and> byte c \<le> 102 \<or> 65 \<le> byte c \<and> byte c \<le> 70)"

definition hex_decodable :: "string \<Rightarrow> bool" where
  "hex_decodable s = (even (length s) \<and> list_all is_hex s)"

text \<open>The loop over the assets: the first one that fits decides.\<close>

fun pick_asset ::
  "string \<Rightarrow> string \<Rightarrow> string \<Rightarrow> string \<Rightarrow> githubReleaseAsset list \<Rightarrow> (resolve_error, Release) result" where
  "pick_asset wantSuffix version runnerArch tag [] = Inl (NoAsset runnerArch tag)"
| "pick_asset wantSuffix version runnerArch tag (a # as) =
     (if has_suffix wantSuffix (asset_Name a) \<and> asset_DownloadURL a \<noteq> [] then
        (case cut_prefix ''sha256:'' (Digest a) of
           None \<Rightarrow> Inl (MissingDigest (asset_Name a))
         | Some digest \<Rightarrow>
             if length digest \<noteq> 64 then Inl (MissingDigest (asset_Name a))
             else if \<not> hex_decodable digest then Inl (InvalidDigest (asset_Name a))
             else Inr \<lparr>Version = version, DownloadURL = asset_DownloadURL a, SHA256 = digest\<rparr>)
      else pick_asset wantSuffix version runnerArch tag as)"

text \<open>
  What the network gives one call of fetch: whether the request could be built, then the
  transport error or the status with the decoded body.
\<close>

record exchange =
  request_error :: "string option"
  response :: "(string, int \<times> (string, githubReleaseResponse) result) result"

definition fetch :: "(nat \<Rightarrow> nat) \<Rightarrow> exchange \<Rightarrow> string \<Rightarrow> (resolve_error, Release) result" where
  "fetch u x arch =
     (case request_error x of Some e \<Rightarrow> Inl (BuildRequest e) | None \<Rightarrow>
      case response x of Inl e \<Rightarrow> Inl (CallReleases e) | Inr (status, decoded) \<Rightarrow>
      if status \<noteq> 200 then Inl (BadStatus status)
      else case decoded of Inl e \<Rightarrow> Inl (DecodeReleases e) | Inr body \<Rightarrow>
      if TagName body = [] then Inl MissingTagName
      else
        let version = trim_prefix ''v'' (TagName body) in
        case releaseArch u arch of Inl e \<Rightarrow> Inl e | Inr runnerArch \<Rightarrow>
        pick_asset (''linux-'' @ runnerArch @ ''-'' @ version @ ''.tar.gz'') version runnerArch
          (TagName body) (Assets body))"

section \<open>Resolve\<close>

text \<open>\<open>now\<close> and \<open>later\<close> are the clock at the expiry check and at the store.\<close>

definition LatestResolver_Resolve ::
  "(nat \<Rightarrow> nat) \<Rightarrow> time \<Rightarrow> time \<Rightarrow> exchange \<Rightarrow> string \<Rightarrow> LatestResolver
     \<Rightarrow> (resolve_error, Release) result \<times> LatestResolver" where
  "LatestResolver_Resolve u now later x arch r =
     (let fresh = (case cached r arch of
                     Some c \<Rightarrow> ttl r > 0 \<and> time_sub now (cr_at c) < ttl r
                   | None \<Rightarrow> False) in
      if fresh then (Inr (cr_release (the (cached r arch))), r)
      else
        case fetch u x arch of
          Inl err \<Rightarrow>
            (case cached r arch of
               Some c \<Rightarrow> if ttl r > 0 then (Inr (cr_release c), r) else (Inl err, r)
             | None \<Rightarrow> (Inl err, r))
        | Inr rel \<Rightarrow>
            (Inr rel,
             if ttl r > 0 then r\<lparr>cached := (cached r)(arch \<mapsto> \<lparr>cr_release = rel, cr_at = later\<rparr>)\<rparr> else r))"

section \<open>What a release is worth\<close>

text \<open>A release whose archive cloud-init can verify.\<close>

definition verifiable :: "Release \<Rightarrow> bool" where
  "verifiable r \<longleftrightarrow> DownloadURL r \<noteq> [] \<and> length (SHA256 r) = 64 \<and> list_all is_hex (SHA256 r)"

lemma pick_asset_Inr:
  "pick_asset w v ra tag as = Inr r \<Longrightarrow>
     verifiable r \<and> Version r = v
     \<and> (\<exists>a \<in> set as. has_suffix w (asset_Name a) \<and> asset_DownloadURL a = DownloadURL r
          \<and> Digest a = ''sha256:'' @ SHA256 r)"
proof (induction as)
  case (Cons a as)
  then show ?case
    by (cases "has_suffix w (asset_Name a) \<and> asset_DownloadURL a \<noteq> []")
      (auto simp: verifiable_def hex_decodable_def cut_prefix_Some split: option.splits if_splits)
qed simp

lemma fetched_verifiable: "fetch u x arch = Inr r \<Longrightarrow> verifiable r"
  by (auto simp: fetch_def Let_def dest: pick_asset_Inr split: option.splits sum.splits prod.splits if_splits)

text \<open>
  C35: every release fetch returns comes from an asset of the response whose name ends with
  the Linux archive of the requested architecture and version, and carries that asset's
  SHA-256 digest, 64 hexadecimal digits; so cloud-init always has a digest to check.
\<close>

theorem fetch_verifiable:
  assumes "fetch u x arch = Inr r"
  shows "verifiable r \<and> (\<exists>body ra. response x = Inr (200, Inr body) \<and> releaseArch u arch = Inr ra
     \<and> Version r = trim_prefix ''v'' (TagName body)
     \<and> (\<exists>a \<in> set (Assets body). has_suffix (''linux-'' @ ra @ ''-'' @ Version r @ ''.tar.gz'') (asset_Name a)
          \<and> asset_DownloadURL a = DownloadURL r \<and> Digest a = ''sha256:'' @ SHA256 r))"
proof -
  obtain body ra where *: "response x = Inr (200, Inr body)" "releaseArch u arch = Inr ra"
    "pick_asset (''linux-'' @ ra @ ''-'' @ trim_prefix ''v'' (TagName body) @ ''.tar.gz'')
       (trim_prefix ''v'' (TagName body)) ra (TagName body) (Assets body) = Inr r"
    using assms by (auto simp: fetch_def Let_def split: option.splits sum.splits prod.splits if_splits)
  from pick_asset_Inr [OF *(3)] *(1,2) show ?thesis by auto
qed

definition sample_exchange :: exchange where
  "sample_exchange =
     \<lparr>request_error = None,
      response = Inr (200, Inr \<lparr>TagName = ''v2.328.0'', Assets =
        [\<lparr>asset_Name = ''actions-runner-win-x64-2.328.0.zip'', asset_DownloadURL = ''u1'', Digest = []\<rparr>,
         \<lparr>asset_Name = ''actions-runner-linux-x64-2.328.0.tar.gz'', asset_DownloadURL = ''u2'',
          Digest = ''sha256:'' @ replicate 64 (CHR ''a'')\<rparr>]\<rparr>)\<rparr>"

lemma sample_fetch:
  "fetch id sample_exchange ''amd64'' =
     Inr \<lparr>Version = ''2.328.0'', DownloadURL = ''u2'', SHA256 = replicate 64 (CHR ''a'')\<rparr>"
  by code_simp

theorem fetch_verifiable_witness:
  "\<exists>r. fetch id sample_exchange ''amd64'' = Inr r \<and> length (SHA256 r) = 64 \<and> Version r = ''2.328.0''"
  using fetch_verifiable [OF sample_fetch] sample_fetch by (auto simp: verifiable_def)

section \<open>Sequences of calls\<close>

record resolve_call =
  at_check :: time
  at_store :: time
  net :: exchange
  want :: string

text \<open>The results of a sequence of calls on one resolver.\<close>

fun resolve_run ::
  "(nat \<Rightarrow> nat) \<Rightarrow> resolve_call list \<Rightarrow> LatestResolver \<Rightarrow> (resolve_error, Release) result list" where
  "resolve_run u [] r = []"
| "resolve_run u (c # cs) r =
     (let (v, r') = LatestResolver_Resolve u (at_check c) (at_store c) (net c) (want c) r in
      v # resolve_run u cs r')"

lemma resolve_run_length [simp]: "length (resolve_run u cs r) = length cs"
  by (induction cs arbitrary: r) (auto simp: Let_def split: prod.splits)

text \<open>What is cached for an architecture was fetched for it by one of the calls \<open>cs\<close>.\<close>

definition fetched_by :: "(nat \<Rightarrow> nat) \<Rightarrow> resolve_call list \<Rightarrow> string \<Rightarrow> Release \<Rightarrow> bool" where
  "fetched_by u cs arch rel \<longleftrightarrow> (\<exists>c \<in> set cs. want c = arch \<and> fetch u (net c) arch = Inr rel)"

definition cache_from :: "(nat \<Rightarrow> nat) \<Rightarrow> resolve_call list \<Rightarrow> LatestResolver \<Rightarrow> bool" where
  "cache_from u cs r \<longleftrightarrow> (\<forall>arch c. cached r arch = Some c \<longrightarrow> fetched_by u cs arch (cr_release c))"

text \<open>The three ways a call ends: served from the cache, fetched, failed.\<close>

lemma Resolve_cases:
  assumes "LatestResolver_Resolve u now later x arch r = (v, r')"
  obtains (hit) c where "cached r arch = Some c" "0 < ttl r" "v = Inr (cr_release c)" "r' = r"
  | (refreshed) rel where "fetch u x arch = Inr rel" "v = Inr rel" "ttl r' = ttl r"
      "cached r' = (if 0 < ttl r then (cached r)(arch \<mapsto> \<lparr>cr_release = rel, cr_at = later\<rparr>) else cached r)"
  | (failed) e where "fetch u x arch = Inl e" "v = Inl e" "r' = r" "cached r arch = None \<or> ttl r \<le> 0"
proof (cases "\<exists>c. cached r arch = Some c \<and> 0 < ttl r \<and> time_sub now (cr_at c) < ttl r")
  case True
  then obtain c where c: "cached r arch = Some c" "0 < ttl r" "time_sub now (cr_at c) < ttl r" by blast
  with assms show thesis by (intro hit [OF c(1,2)]) (auto simp: LatestResolver_Resolve_def)
next
  case False
  then have nf: "(case cached r arch of Some c \<Rightarrow> ttl r > 0 \<and> time_sub now (cr_at c) < ttl r | None \<Rightarrow> False) = False"
    by (auto split: option.splits)
  show thesis
  proof (cases "fetch u x arch")
    case (Inr rel)
    with assms show thesis by (intro refreshed [OF Inr]) (auto simp: LatestResolver_Resolve_def nf Let_def)
  next
    case (Inl e)
    show thesis
    proof (cases "\<exists>c. cached r arch = Some c \<and> 0 < ttl r")
      case True
      then obtain c where c: "cached r arch = Some c" "0 < ttl r" by blast
      with assms Inl show thesis by (intro hit [OF c]) (auto simp: LatestResolver_Resolve_def split: if_splits)
    next
      case False
      with assms Inl show thesis
        by (intro failed [OF Inl]; cases "cached r arch"; simp add: LatestResolver_Resolve_def nf)
    qed
  qed
qed

lemma fetched_by_append: "fetched_by u (cs @ ds) a rel \<longleftrightarrow> fetched_by u cs a rel \<or> fetched_by u ds a rel"
  by (auto simp: fetched_by_def)

lemma fetched_by_one: "fetched_by u [c] a rel \<longleftrightarrow> want c = a \<and> fetch u (net c) a = Inr rel"
  by (auto simp: fetched_by_def)

lemma resolve_cache_from:
  assumes "LatestResolver_Resolve u (at_check c) (at_store c) (net c) (want c) r = (v, r')" "cache_from u cs r"
  shows "cache_from u (cs @ [c]) r' \<and> ttl r' = ttl r
     \<and> (\<forall>rel. v = Inr rel \<longrightarrow> fetched_by u (cs @ [c]) (want c) rel)"
  using assms(1)
  by (cases rule: Resolve_cases)
    (use assms(2) in \<open>auto simp: cache_from_def fetched_by_append fetched_by_one split: if_splits\<close>)

lemma resolve_run_from:
  "cache_from u pre r \<Longrightarrow> i < length cs \<Longrightarrow> resolve_run u cs r ! i = Inr rel \<Longrightarrow>
     fetched_by u (pre @ take (Suc i) cs) (want (cs ! i)) rel"
proof (induction cs arbitrary: r pre i)
  case (Cons c cs)
  obtain v r' where vr: "LatestResolver_Resolve u (at_check c) (at_store c) (net c) (want c) r = (v, r')"
    by fastforce
  from resolve_cache_from [OF vr Cons.prems(1)] have
    *: "cache_from u (pre @ [c]) r'" "\<forall>rel. v = Inr rel \<longrightarrow> fetched_by u (pre @ [c]) (want c) rel" by auto
  show ?case
  proof (cases i)
    case 0
    with Cons.prems(3) vr * show ?thesis by simp
  next
    case (Suc j)
    with Cons.IH [OF *(1), of j] Cons.prems vr show ?thesis by simp
  qed
qed simp

text \<open>
  In every sequence of calls on a fresh resolver, a release that is returned was fetched
  for the requested architecture by this call or an earlier one: the cache never mixes
  architectures and never serves anything that did not pass the digest check.
\<close>

theorem Resolve_serves_fetched:
  assumes "i < length cs" "resolve_run u cs (NewLatestResolver d) ! i = Inr rel"
  shows "fetched_by u (take (Suc i) cs) (want (cs ! i)) rel \<and> verifiable rel"
proof -
  have "cache_from u [] (NewLatestResolver d)" by (simp add: cache_from_def NewLatestResolver_def)
  from resolve_run_from [OF this assms] have f: "fetched_by u (take (Suc i) cs) (want (cs ! i)) rel" by simp
  then obtain x where "fetch u x (want (cs ! i)) = Inr rel" by (auto simp: fetched_by_def)
  then have "verifiable rel" using pick_asset_Inr
    by (auto simp: fetch_def Let_def split: option.splits sum.splits prod.splits if_splits)
  with f show ?thesis by blast
qed

lemma resolve_keeps:
  assumes "LatestResolver_Resolve u (at_check c) (at_store c) (net c) (want c) r = (v, r')" "0 < ttl r"
  shows "ttl r' = ttl r \<and> (is_ok v \<longrightarrow> cached r' (want c) \<noteq> None)
     \<and> (\<forall>a. cached r a \<noteq> None \<longrightarrow> cached r' a \<noteq> None \<and> (a = want c \<longrightarrow> is_ok v))"
  using assms(1) by (cases rule: Resolve_cases) (use assms(2) in auto)

lemma resolve_run_cached:
  "0 < ttl r \<Longrightarrow> cached r a \<noteq> None \<Longrightarrow> i < length cs \<Longrightarrow> want (cs ! i) = a \<Longrightarrow> is_ok (resolve_run u cs r ! i)"
proof (induction cs arbitrary: r i)
  case (Cons c cs)
  obtain v r' where vr: "LatestResolver_Resolve u (at_check c) (at_store c) (net c) (want c) r = (v, r')"
    by fastforce
  from resolve_keeps [OF vr Cons.prems(1)] Cons.prems(1,2) have
    "0 < ttl r'" "cached r' a \<noteq> None" "a = want c \<longrightarrow> is_ok v" by auto
  with Cons vr show ?case by (cases i) auto
qed simp

text \<open>
  C36: availability. With caching on, once a call for an architecture has succeeded, every
  later call for it succeeds, whatever the network does (an expired release is served when
  the refresh fails).
\<close>

theorem Resolve_stays_available:
  assumes "0 < ttl r" "i \<le> j" "j < length cs" "want (cs ! i) = want (cs ! j)"
    and "is_ok (resolve_run u cs r ! i)"
  shows "is_ok (resolve_run u cs r ! j)"
  using assms
proof (induction cs arbitrary: r i j)
  case (Cons c cs)
  obtain v r' where vr: "LatestResolver_Resolve u (at_check c) (at_store c) (net c) (want c) r = (v, r')"
    by fastforce
  note k = resolve_keeps [OF vr Cons.prems(1)]
  show ?case
  proof (cases i)
    case 0
    show ?thesis
    proof (cases j)
      case 0
      with \<open>i = 0\<close> Cons.prems show ?thesis by simp
    next
      case (Suc n)
      have "cached r' (want c) \<noteq> None" using k Cons.prems(5) \<open>i = 0\<close> vr by simp
      then show ?thesis
        using resolve_run_cached [of r' "want c" n cs u] k Cons.prems Suc \<open>i = 0\<close> vr by simp
    qed
  next
    case (Suc m)
    with Cons.prems(2) obtain n where "j = Suc n" by (cases j) auto
    with Suc Cons.prems vr k Cons.IH [of r' m n] show ?thesis by simp
  qed
qed simp

text \<open>
  While a cached release is younger than the TTL, Resolve does not use the network: its
  result and the cache are the same whatever the exchange would have been.
\<close>

theorem Resolve_fresh_no_network:
  assumes "cached r arch = Some c" "0 < ttl r" "time_sub now (cr_at c) < ttl r"
  shows "LatestResolver_Resolve u now later x arch r = (Inr (cr_release c), r)"
  using assms by (simp add: LatestResolver_Resolve_def)

section \<open>Witnesses\<close>

definition offline :: exchange where
  "offline = \<lparr>request_error = None, response = Inl ''no route''\<rparr>"

lemma offline_fetch: "fetch u offline arch = Inl (CallReleases ''no route'')"
  by (simp add: fetch_def offline_def)

definition sample_calls :: "resolve_call list" where
  "sample_calls =
     [\<lparr>at_check = 0, at_store = 10, net = sample_exchange, want = ''amd64''\<rparr>,
      \<lparr>at_check = 2 * hour, at_store = 2 * hour, net = offline, want = ''amd64''\<rparr>]"

lemma sample_calls_run:
  "resolve_run id sample_calls (NewLatestResolver hour) =
     replicate 2 (Inr \<lparr>Version = ''2.328.0'', DownloadURL = ''u2'', SHA256 = replicate 64 (CHR ''a'')\<rparr>)"
  by (simp add: sample_calls_def LatestResolver_Resolve_def NewLatestResolver_def sample_fetch Let_def
      offline_fetch hour_def minute_def second_def time_sub_def eval_nat_numeral
      max_int64_def min_int64_def)

theorem Resolve_serves_fetched_witness:
  "fetched_by id sample_calls ''amd64''
     \<lparr>Version = ''2.328.0'', DownloadURL = ''u2'', SHA256 = replicate 64 (CHR ''a'')\<rparr>"
  using Resolve_serves_fetched [of 1 sample_calls id hour, OF _ , unfolded sample_calls_run]
  by (simp add: sample_calls_def eval_nat_numeral)

theorem Resolve_stays_available_witness: "is_ok (resolve_run id sample_calls (NewLatestResolver hour) ! 1)"
  by (rule Resolve_stays_available [of _ 0])
    (simp_all add: sample_calls_run, simp_all add: NewLatestResolver_def sample_calls_def hour_def minute_def second_def)

definition warm :: LatestResolver where
  "warm = \<lparr>endpoint = [], ttl = hour, cached = [''amd64'' \<mapsto>
     \<lparr>cr_release = \<lparr>Version = ''1'', DownloadURL = ''u'', SHA256 = ''a''\<rparr>, cr_at = 0\<rparr>]\<rparr>"

theorem Resolve_fresh_no_network_witness:
  "LatestResolver_Resolve id 5 5 offline ''amd64'' warm
   = (Inr \<lparr>Version = ''1'', DownloadURL = ''u'', SHA256 = ''a''\<rparr>, warm)"
proof -
  let ?c = "\<lparr>cr_release = \<lparr>Version = ''1'', DownloadURL = ''u'', SHA256 = ''a''\<rparr>, cr_at = 0\<rparr>"
  have c: "cached warm ''amd64'' = Some ?c" "0 < ttl warm" "time_sub 5 (cr_at ?c) < ttl warm"
    by (simp_all add: warm_def hour_def minute_def second_def time_sub_def max_int64_def min_int64_def)
  from Resolve_fresh_no_network [OF c] show ?thesis by simp
qed

end
