(* ===== verification/Fleet.thy ===== *)
theory Fleet imports Orchestrator_Pool begin

text \<open>
  The classes of one process together. cmd/incuse starts one orchestrator per class; they
  have the context of the process in common and, where the limiters they hold are the same
  channels, these. A fleet is that system, with a store of the channels: a class works on
  the channels its own fields name, so that who shares a limiter with whom is decided by the
  orchestrators, not here. When all hold the same two limiters, what one class sees of a
  fleet is an execution of the system of Orchestrator.thy, in which the others only take and
  return permits; so everything proved of one class with an arbitrary environment holds for
  every class of a fleet.
\<close>

section \<open>The fleet\<close>

text \<open>
  A member: its orchestrator, its own shared state and goroutines (the limiter fields of
  which name its channels; what is in the channels is in the store), and, as a ghost, how
  many permits of each limiter its goroutines hold. The store maps the identity of a channel
  to its state.
\<close>

record member =
  m_orch :: orch
  m_sys :: sys
  m_mint :: nat
  m_launch :: nat

record fleet =
  f_store :: "nat \<Rightarrow> Limiter"
  f_members :: "member list"

datatype fleet_label = Member nat label | CancelAll

definition with_limiters :: "Limiter \<Rightarrow> Limiter \<Rightarrow> nat \<Rightarrow> nat \<Rightarrow> sys \<Rightarrow> sys" where
  "with_limiters ml ll om ol y =
     y\<lparr>shared := (shared y)\<lparr>mintLimiter := ml, launchLimiter := ll, othersMint := om, othersLaunch := ol\<rparr>\<rparr>"

text \<open>The channels of a member, as they are now.\<close>

definition mint_of :: "fleet \<Rightarrow> member \<Rightarrow> Limiter" where
  "mint_of f m = f_store f (chan (mintLimiter (shared (m_sys m))))"

definition launch_of :: "fleet \<Rightarrow> member \<Rightarrow> Limiter" where
  "launch_of f m = f_store f (chan (launchLimiter (shared (m_sys m))))"

text \<open>What a member sees: its channels, and the permits it does not hold itself.\<close>

definition view :: "fleet \<Rightarrow> member \<Rightarrow> sys" where
  "view f m = with_limiters (mint_of f m) (launch_of f m)
     (inUse (mint_of f m) - m_mint m) (inUse (launch_of f m) - m_launch m) (m_sys m)"

text \<open>The transitions of a class that are its own: a goroutine runs, the listener calls.\<close>

fun own_label :: "label \<Rightarrow> bool" where
  "own_label (OthersMint b) = False"
| "own_label (OthersLaunch b) = False"
| "own_label CancelCaller = False"
| "own_label l = True"

text \<open>A panic in any goroutine ends the process.\<close>

definition fleet_down :: "fleet \<Rightarrow> bool" where
  "fleet_down f \<longleftrightarrow> list_ex (\<lambda>m. crashed (shared (m_sys m))) (f_members f)"

definition cancel_member :: "member \<Rightarrow> member" where
  "cancel_member m = m\<lparr>m_sys := (m_sys m)\<lparr>shared := (shared (m_sys m))\<lparr>callerDone := True\<rparr>\<rparr>\<rparr>"

definition after_step :: "fleet \<Rightarrow> nat \<Rightarrow> sys \<Rightarrow> fleet" where
  "after_step f i y =
     (let m = f_members f ! i; ml = mintLimiter (shared y); ll = launchLimiter (shared y) in
      \<lparr>f_store = (f_store f)(chan ml := ml, chan ll := ll),
       f_members = (f_members f)[i :=
         m\<lparr>m_sys := y, m_mint := m_mint m + inUse ml - inUse (mint_of f m),
           m_launch := m_launch m + inUse ll - inUse (launch_of f m)\<rparr>]\<rparr>)"

fun fleet_step :: "fleet_label \<Rightarrow> fleet \<Rightarrow> fleet option" where
  "fleet_step (Member i l) f =
     (if i < length (f_members f) \<and> own_label l \<and> \<not> fleet_down f then
        map_option (after_step f i) (sys_step (m_orch (f_members f ! i)) l (view f (f_members f ! i)))
      else None)"
| "fleet_step CancelAll f = Some (f\<lparr>f_members := map cancel_member (f_members f)\<rparr>)"

text \<open>
  The start: what main.go has when the errgroup begins, an orchestrator and its fresh state
  per class. The store holds the channels these states name; at any other identity there is
  none, written as a channel without room.
\<close>

definition channels :: "shared \<Rightarrow> (nat \<Rightarrow> Limiter) \<Rightarrow> nat \<Rightarrow> Limiter" where
  "channels s st =
     st(chan (mintLimiter s) := mintLimiter s, chan (launchLimiter s) := launchLimiter s)"

definition init_fleet :: "(orch \<times> shared) list \<Rightarrow> fleet" where
  "init_fleet ms =
     \<lparr>f_store = fold channels (map snd ms) (\<lambda>a. \<lparr>chan = a, capacity = 0, inUse = 0\<rparr>),
      f_members = map (\<lambda>(o1, s). \<lparr>m_orch = o1, m_sys = init_sys o1 s, m_mint = 0, m_launch = 0\<rparr>) ms\<rparr>"

fun allowed :: "(label \<Rightarrow> sys \<Rightarrow> bool) \<Rightarrow> fleet_label \<Rightarrow> fleet \<Rightarrow> bool" where
  "allowed A (Member i l) f = A l (view f (f_members f ! i))"
| "allowed A CancelAll f = True"

inductive fleet_reachable :: "(label \<Rightarrow> sys \<Rightarrow> bool) \<Rightarrow> fleet \<Rightarrow> fleet \<Rightarrow> bool" for A f0 where
  fleet_init: "fleet_reachable A f0 f0"
| fleet_next: "fleet_reachable A f0 f \<Longrightarrow> allowed A l f \<Longrightarrow> fleet_step l f = Some f' \<Longrightarrow> fleet_reachable A f0 f'"

text \<open>An environment assumption on the class itself: the other classes do as they like.\<close>

definition open_env :: "(label \<Rightarrow> sys \<Rightarrow> bool) \<Rightarrow> bool" where
  "open_env A \<longleftrightarrow> (\<forall>l y. own_label l \<or> A l y)"

lemma open_envD: "open_env A \<Longrightarrow> \<not> own_label l \<Longrightarrow> A l y"
  by (auto simp: open_env_def)

lemma open_any: "open_env any_env"
  by (simp add: open_env_def any_env_def)

fun fleet_run :: "(label \<Rightarrow> sys \<Rightarrow> bool) \<Rightarrow> fleet_label list \<Rightarrow> fleet \<Rightarrow> fleet option" where
  "fleet_run A [] f = Some f"
| "fleet_run A (l # ls) f =
     (if allowed A l f then (case fleet_step l f of None \<Rightarrow> None | Some f' \<Rightarrow> fleet_run A ls f') else None)"

lemma fleet_run_reachable:
  "fleet_reachable A f0 f \<Longrightarrow> fleet_run A ls f = Some f' \<Longrightarrow> fleet_reachable A f0 f'"
proof (induction ls arbitrary: f)
  case (Cons l ls)
  then show ?case by (auto split: option.splits if_splits intro: fleet_next)
qed simp

section \<open>One step of a limiter\<close>

text \<open>In one step a limiter stays as it is, or one permit is taken, or one is returned.\<close>

definition moves :: "Limiter \<Rightarrow> Limiter \<Rightarrow> bool" where
  "moves l l' \<longleftrightarrow> l' = l \<or> limiter_acquire l = Some l' \<or> limiter_release l = Some l'"

lemma step_moves:
  "step code r p s = Some (s', p', new) \<Longrightarrow>
     moves (mintLimiter s) (mintLimiter s') \<and> moves (launchLimiter s) (launchLimiter s')"
  by (cases p) (auto simp: moves_def Let_def record_call_def split: if_splits reply.splits prod.splits)

lemma step_crash_quiet:
  "step code r p s = Some (s', p', new) \<Longrightarrow> crashed s' \<Longrightarrow> \<not> crashed s \<Longrightarrow>
     mintLimiter s' = mintLimiter s \<and> launchLimiter s' = launchLimiter s"
  by (cases p) (auto simp: Let_def record_call_def split: if_splits reply.splits prod.splits)

lemma own_moves:
  "sys_step o1 l y = Some y' \<Longrightarrow> own_label l \<Longrightarrow>
     moves (mintLimiter (shared y)) (mintLimiter (shared y'))
     \<and> moves (launchLimiter (shared y)) (launchLimiter (shared y'))
     \<and> othersMint (shared y') = othersMint (shared y) \<and> othersLaunch (shared y') = othersLaunch (shared y)"
  by (cases l) (auto simp: moves_def [of "mintLimiter (shared y)" "mintLimiter (shared y)"]
      moves_def [of "launchLimiter (shared y)" "launchLimiter (shared y)"] step_moves step_others
      dest: step_moves step_others split: if_splits)

text \<open>A move of a limiter, seen by a class that does not make it.\<close>

lemma others_steps:
  "sys_step o1 (OthersMint True) (with_limiters ml ll om ol y) =
     map_option (\<lambda>l. with_limiters l ll (Suc om) ol y) (limiter_acquire ml)"
  "sys_step o1 (OthersMint False) (with_limiters ml ll (Suc om) ol y) =
     map_option (\<lambda>l. with_limiters l ll om ol y) (limiter_release ml)"
  "sys_step o1 (OthersLaunch True) (with_limiters ml ll om ol y) =
     map_option (\<lambda>l. with_limiters ml l om (Suc ol) y) (limiter_acquire ll)"
  "sys_step o1 (OthersLaunch False) (with_limiters ml ll om (Suc ol) y) =
     map_option (\<lambda>l. with_limiters ml l om ol y) (limiter_release ll)"
  by (cases y; cases "shared y"; simp add: with_limiters_def Let_def)+

lemma moves_cases:
  assumes "moves l l'" "inUse l' + m = inUse l + m'"
  obtains "l' = l" "m' = m" | "limiter_acquire l = Some l'" "m' = Suc m"
    | "limiter_release l = Some l'" "m = Suc m'"
  using assms by (auto simp: moves_def limiter_acquire_def limiter_release_def split: if_splits)

lemma others_view:
  assumes op: "open_env A" and r: "reachable o1 A s0 (with_limiters ml ll om ol y)"
  shows "moves ml ml' \<Longrightarrow> inUse ml' + om = inUse ml + om' \<Longrightarrow>
      reachable o1 A s0 (with_limiters ml' ll om' ol y)"
    and "moves ll ll' \<Longrightarrow> inUse ll' + ol = inUse ll + ol' \<Longrightarrow>
      reachable o1 A s0 (with_limiters ml ll' om ol' y)"
proof -
  have go: "\<not> own_label l \<Longrightarrow> sys_step o1 l (with_limiters ml ll om ol y) = Some z \<Longrightarrow> reachable o1 A s0 z" for l z
    using reachable.reach_step [OF r] op by (auto simp: open_env_def)
  show "reachable o1 A s0 (with_limiters ml' ll om' ol y)"
    if "moves ml ml'" "inUse ml' + om = inUse ml + om'"
    using that by (rule moves_cases)
      (use r go [of "OthersMint True"] go [of "OthersMint False"] in \<open>simp_all add: others_steps del: sys_step.simps\<close>)
  show "reachable o1 A s0 (with_limiters ml ll' om ol' y)"
    if "moves ll ll'" "inUse ll' + ol = inUse ll + ol'"
    using that by (rule moves_cases)
      (use r go [of "OthersLaunch True"] go [of "OthersLaunch False"] in \<open>simp_all add: others_steps del: sys_step.simps\<close>)
qed

lemma others_view_both:
  assumes "open_env A" "reachable o1 A s0 (with_limiters ml ll om ol y)" "moves ml ml'" "moves ll ll'"
    and "inUse ml' + om = inUse ml + om'" "inUse ll' + ol = inUse ll + ol'"
  shows "reachable o1 A s0 (with_limiters ml' ll' om' ol' y)"
  using others_view(2) [OF assms(1) others_view(1) [OF assms(1,2,3,5)] assms(4,6)] .

text \<open>A class only returns permits its goroutines hold.\<close>

lemma own_step_keeps_others:
  assumes inv: "pool_inv M z" "pool_inv M z'" and st: "sys_step o1 l z = Some z'" "own_label l"
    and nc: "\<not> crashed (shared z)"
  shows "othersMint (shared z) \<le> inUse (mintLimiter (shared z'))
     \<and> othersLaunch (shared z) \<le> inUse (launchLimiter (shared z'))"
proof (cases "crashed (shared z')")
  case True
  obtain i r where l: "l = Thread i r" using True nc st by (cases l) auto
  then have "mintLimiter (shared z') = mintLimiter (shared z)" "launchLimiter (shared z') = launchLimiter (shared z)"
    using st(1) True nc by (auto dest: step_crash_quiet split: if_splits)
  then show ?thesis using inv(1) nc by (auto simp: pool_inv_def books_def balances_def)
next
  case False
  then show ?thesis using inv(2) own_moves [OF st] by (auto simp: pool_inv_def books_def balances_def)
qed

section \<open>The simulation\<close>

text \<open>
  When all members start with the same two limiters, \<open>ml\<close> and \<open>ll\<close>: they keep them, each
  member's view is reachable in the system of its class, and the permits in use are exactly
  those the members hold.
\<close>

definition fleet_inv :: "(label \<Rightarrow> sys \<Rightarrow> bool) \<Rightarrow> Limiter \<Rightarrow> Limiter \<Rightarrow> (orch \<times> shared) list \<Rightarrow> fleet \<Rightarrow> bool" where
  "fleet_inv A ml ll ms f \<longleftrightarrow> length (f_members f) = length ms
     \<and> (ms \<noteq> [] \<longrightarrow> same_limiter ml (f_store f (chan ml)) \<and> same_limiter ll (f_store f (chan ll)))
     \<and> (\<forall>i < length ms. m_orch (f_members f ! i) = fst (ms ! i)
          \<and> chan (mintLimiter (shared (m_sys (f_members f ! i)))) = chan ml
          \<and> chan (launchLimiter (shared (m_sys (f_members f ! i)))) = chan ll
          \<and> reachable (fst (ms ! i)) A (snd (ms ! i)) (view f (f_members f ! i)))
     \<and> sum_list (map m_mint (f_members f)) = inUse (f_store f (chan ml))
     \<and> sum_list (map m_launch (f_members f)) = inUse (f_store f (chan ll))"

definition fresh_members :: "Limiter \<Rightarrow> Limiter \<Rightarrow> (orch \<times> shared) list \<Rightarrow> bool" where
  "fresh_members ml ll ms \<longleftrightarrow> chan ml \<noteq> chan ll \<and> inUse ml = 0 \<and> inUse ll = 0
     \<and> list_all (\<lambda>m. \<exists>old. snd m = init_shared ml ll old) ms"

lemma fresh_pool_inv:
  assumes "fresh_members ml ll ms" "i < length ms" "reachable (fst (ms ! i)) A (snd (ms ! i)) z"
  shows "pool_inv (pool_limit (fst (ms ! i))) z"
proof -
  obtain old where "snd (ms ! i) = init_shared ml ll old"
    using assms(1,2) by (auto simp: fresh_members_def list_all_length)
  moreover have "inUse ml = 0" "inUse ll = 0" using assms(1) by (simp_all add: fresh_members_def)
  ultimately show ?thesis using pool_inv_reachable [of "fst (ms ! i)" A ml ll old z] assms(3) by simp
qed

lemma member_le: "i < length xs \<Longrightarrow> (g (xs ! i) :: nat) \<le> sum_list (map g xs)"
  by (rule member_le_sum_list) (auto intro: nth_mem)

lemma two_members_le:
  "i < length xs \<Longrightarrow> j < length xs \<Longrightarrow> i \<noteq> j \<Longrightarrow> (g (xs ! i) :: nat) + g (xs ! j) \<le> sum_list (map g xs)"
proof (induction xs arbitrary: i j)
  case (Cons x xs)
  then show ?case by (cases i; cases j) (auto simp: member_le add.commute trans_le_add2 add_left_mono)
qed simp

lemma after_step_members:
  "i < length (f_members f) \<Longrightarrow> f_members (after_step f i y) ! i =
     (f_members f ! i)\<lparr>m_sys := y,
        m_mint := m_mint (f_members f ! i) + inUse (mintLimiter (shared y)) - inUse (mint_of f (f_members f ! i)),
        m_launch := m_launch (f_members f ! i) + inUse (launchLimiter (shared y)) - inUse (launch_of f (f_members f ! i))\<rparr>"
  "j \<noteq> i \<Longrightarrow> f_members (after_step f i y) ! j = f_members f ! j"
  "length (f_members (after_step f i y)) = length (f_members f)"
  "f_store (after_step f i y) = (f_store f)(chan (mintLimiter (shared y)) := mintLimiter (shared y),
     chan (launchLimiter (shared y)) := launchLimiter (shared y))"
  by (simp_all add: after_step_def Let_def)

lemma view_limiters:
  "mintLimiter (shared (view f m)) = mint_of f m" "launchLimiter (shared (view f m)) = launch_of f m"
  "othersMint (shared (view f m)) = inUse (mint_of f m) - m_mint m"
  "othersLaunch (shared (view f m)) = inUse (launch_of f m) - m_launch m"
  "crashed (shared (view f m)) = crashed (shared (m_sys m))"
  by (simp_all add: view_def with_limiters_def)

lemma with_limiters_same:
  "mintLimiter (shared y) = ml \<Longrightarrow> launchLimiter (shared y) = ll \<Longrightarrow> othersMint (shared y) = om \<Longrightarrow>
     othersLaunch (shared y) = ol \<Longrightarrow> with_limiters ml ll om ol y = y"
  by (cases y; cases "shared y") (simp add: with_limiters_def)

lemma fleet_inv_limiters:
  assumes "fleet_inv A ml ll ms f" "i < length ms"
  shows "mint_of f (f_members f ! i) = f_store f (chan ml)" "launch_of f (f_members f ! i) = f_store f (chan ll)"
    and "same_limiter ml (f_store f (chan ml))" "same_limiter ll (f_store f (chan ll))"
  using assms by (auto simp: fleet_inv_def mint_of_def launch_of_def)

text \<open>The channels after a step of a member.\<close>

lemma after_step_store:
  assumes fresh: "fresh_members ml ll ms" and inv: "fleet_inv A ml ll ms f" and i: "i < length ms"
    and st: "sys_step o1 l (view f (f_members f ! i)) = Some y"
  shows "f_store (after_step f i y) (chan ml) = mintLimiter (shared y)"
    and "f_store (after_step f i y) (chan ll) = launchLimiter (shared y)"
    and "same_limiter ml (mintLimiter (shared y))" "same_limiter ll (launchLimiter (shared y))"
proof -
  note lim = fleet_inv_limiters [OF inv i]
  from sys_step_same_limiter [OF st] lim(3,4)
  show s: "same_limiter ml (mintLimiter (shared y))" "same_limiter ll (launchLimiter (shared y))"
    by (simp_all add: view_limiters lim(1,2) same_limiter_def)
  with fresh show "f_store (after_step f i y) (chan ml) = mintLimiter (shared y)"
    "f_store (after_step f i y) (chan ll) = launchLimiter (shared y)"
    by (simp_all add: after_step_members same_limiter_def fresh_members_def)
qed

lemma fleet_inv_member:
  assumes op: "open_env A" and fresh: "fresh_members ml ll ms" and inv: "fleet_inv A ml ll ms f"
    and i: "i < length (f_members f)"
    and ol: "own_label l" "A l (view f (f_members f ! i))" and up: "\<not> fleet_down f"
    and st: "sys_step (m_orch (f_members f ! i)) l (view f (f_members f ! i)) = Some y"
  shows "fleet_inv A ml ll ms (after_step f i y)"
proof -
  let ?m = "f_members f ! i" and ?f' = "after_step f i y"
  let ?M = "f_store f (chan ml)" and ?L = "f_store f (chan ll)"
  let ?ml = "mintLimiter (shared y)" and ?ll = "launchLimiter (shared y)"
  have len: "length (f_members f) = length ms" and i': "i < length ms"
    and sums: "sum_list (map m_mint (f_members f)) = inUse ?M" "sum_list (map m_launch (f_members f)) = inUse ?L"
    using inv i by (simp_all add: fleet_inv_def)
  have at: "m_orch (f_members f ! j) = fst (ms ! j)"
      "chan (mintLimiter (shared (m_sys (f_members f ! j)))) = chan ml"
      "chan (launchLimiter (shared (m_sys (f_members f ! j)))) = chan ll"
      "reachable (fst (ms ! j)) A (snd (ms ! j)) (view f (f_members f ! j))" if "j < length ms" for j
    using inv that by (auto simp: fleet_inv_def)
  note lim = fleet_inv_limiters(1,2) [OF inv] and store = after_step_store [OF fresh inv i' st]
  have ry: "reachable (fst (ms ! i)) A (snd (ms ! i)) y"
    using reachable.reach_step [OF at(4) [OF i'] ol(2) st [unfolded at(1) [OF i']]] .
  have nc: "\<not> crashed (shared (view f ?m))"
    using up i by (auto simp: view_limiters fleet_down_def list_ex_iff)
  note mv = own_moves [OF st ol(1), unfolded view_limiters lim [OF i']]
  have keep: "inUse ?M - m_mint ?m \<le> inUse ?ml" "inUse ?L - m_launch ?m \<le> inUse ?ll"
    using own_step_keeps_others [OF fresh_pool_inv [OF fresh i' at(4) [OF i']] fresh_pool_inv [OF fresh i' ry] st ol(1) nc]
    by (simp_all add: view_limiters lim [OF i'])
  have le: "m_mint ?m \<le> inUse ?M" "m_launch ?m \<le> inUse ?L"
    using member_le [OF i, of m_mint] member_le [OF i, of m_launch] sums by simp_all
  note mem = after_step_members(1) [OF i, of y, unfolded lim [OF i']]
  have sums': "sum_list (map m_mint (f_members ?f')) = inUse ?ml" "sum_list (map m_launch (f_members ?f')) = inUse ?ll"
    using sum_list_update_nat [OF i, of m_mint "f_members ?f' ! i"] sum_list_update_nat [OF i, of m_launch "f_members ?f' ! i"]
      sums keep le
    by (simp_all add: mem) (simp_all add: after_step_def Let_def lim [OF i'])
  have "chan (mintLimiter (shared (m_sys (f_members ?f' ! j)))) = chan ml
      \<and> chan (launchLimiter (shared (m_sys (f_members ?f' ! j)))) = chan ll
      \<and> m_orch (f_members ?f' ! j) = fst (ms ! j)" if "j < length ms" for j
    using at(1-3) [OF that] store(3,4) by (cases "j = i") (simp_all add: after_step_members(2) mem same_limiter_def)
  moreover have "reachable (fst (ms ! j)) A (snd (ms ! j)) (view ?f' (f_members ?f' ! j))" if j: "j < length ms" for j
  proof (cases "j = i")
    case True
    have "view ?f' (f_members ?f' ! i) = y"
      using mv keep le store by (simp add: view_def mem mint_of_def launch_of_def same_limiter_def with_limiters_same)
    with ry True show ?thesis by simp
  next
    case False
    let ?n = "f_members f ! j"
    have two: "m_mint ?n + m_mint ?m \<le> inUse ?M" "m_launch ?n + m_launch ?m \<le> inUse ?L"
      using two_members_le [of j "f_members f" i m_mint] two_members_le [of j "f_members f" i m_launch]
        i j len False sums by simp_all
    have "view ?f' (f_members ?f' ! j)
        = with_limiters ?ml ?ll (inUse ?ml - m_mint ?n) (inUse ?ll - m_launch ?n) (m_sys ?n)"
      using False at(2,3) [OF j] store(1,2) by (simp add: view_def after_step_members(2) mint_of_def launch_of_def)
    moreover have "reachable (fst (ms ! j)) A (snd (ms ! j)) \<dots>"
      by (rule others_view_both [OF op at(4) [OF j, unfolded view_def lim [OF j]]]) (use mv keep two in simp_all)
    ultimately show ?thesis by simp
  qed
  ultimately show ?thesis using sums' len store by (simp add: fleet_inv_def after_step_members(3))
qed

lemma fleet_inv_cancel:
  assumes "open_env A" "fleet_inv A ml ll ms f"
  shows "fleet_inv A ml ll ms (f\<lparr>f_members := map cancel_member (f_members f)\<rparr>)"
proof -
  have v: "view (f\<lparr>f_members := map cancel_member (f_members f)\<rparr>) (cancel_member m)
      = (view f m)\<lparr>shared := (shared (view f m))\<lparr>callerDone := True\<rparr>\<rparr>" for m
    by (cases "m_sys m"; cases "shared (m_sys m)")
      (simp add: view_def with_limiters_def cancel_member_def mint_of_def launch_of_def)
  have "reachable o1 A s0 (view f m) \<Longrightarrow>
      reachable o1 A s0 ((view f m)\<lparr>shared := (shared (view f m))\<lparr>callerDone := True\<rparr>\<rparr>)" for o1 s0 m
    using reachable.reach_step [of o1 A s0 "view f m" CancelCaller] open_envD [OF assms(1), of CancelCaller] by simp
  moreover have "m_orch (cancel_member m) = m_orch m" "m_mint (cancel_member m) = m_mint m"
    "m_launch (cancel_member m) = m_launch m"
    "mintLimiter (shared (m_sys (cancel_member m))) = mintLimiter (shared (m_sys m))"
    "launchLimiter (shared (m_sys (cancel_member m))) = launchLimiter (shared (m_sys m))" for m
    by (simp_all add: cancel_member_def)
  ultimately show ?thesis using assms(2) by (auto simp: fleet_inv_def v comp_def)
qed

text \<open>The start: every member names the same two channels, so the store holds these.\<close>

lemma channels_init [simp]:
  "channels (init_shared ml ll old) st = st(chan ml := ml, chan ll := ll)"
  by (simp add: channels_def init_shared_def)

lemma fold_channels:
  "list_all (\<lambda>m. \<exists>old. snd m = init_shared ml ll old) ms \<Longrightarrow>
     fold channels (map snd ms) st = (if ms = [] then st else st(chan ml := ml, chan ll := ll))"
proof (induction ms arbitrary: st)
  case (Cons m ms)
  then obtain old where "snd m = init_shared ml ll old" by auto
  with Cons show ?case by (simp add: fun_eq_iff)
qed simp

lemma fleet_inv_init:
  assumes "fresh_members ml ll ms"
  shows "fleet_inv A ml ll ms (init_fleet ms)"
proof -
  have all: "list_all (\<lambda>m. \<exists>old. snd m = init_shared ml ll old) ms" and ne: "chan ml \<noteq> chan ll"
    using assms by (simp_all add: fresh_members_def)
  note st = fold_channels [OF all]
  have old: "\<exists>old. snd (ms ! i) = init_shared ml ll old" if "i < length ms" for i
    using all that by (simp add: list_all_length)
  have v: "view (init_fleet ms) (f_members (init_fleet ms) ! i) = init_sys (fst (ms ! i)) (snd (ms ! i))"
    if i: "i < length ms" for i
  proof -
    obtain old where "snd (ms ! i) = init_shared ml ll old" using old [OF i] by blast
    then show ?thesis using i ne
      by (auto simp: view_def init_fleet_def init_sys_def init_shared_def case_prod_beta mint_of_def launch_of_def st
          intro!: with_limiters_same)
  qed
  have "chan (mintLimiter (shared (m_sys (f_members (init_fleet ms) ! i)))) = chan ml
      \<and> chan (launchLimiter (shared (m_sys (f_members (init_fleet ms) ! i)))) = chan ll" if i: "i < length ms" for i
    using old [OF i] i by (auto simp: init_fleet_def init_sys_def init_shared_def case_prod_beta)
  moreover have "reachable (fst (ms ! i)) A (snd (ms ! i)) (view (init_fleet ms) (f_members (init_fleet ms) ! i))"
    if "i < length ms" for i unfolding v [OF that] by (rule reachable.reach_init)
  moreover have "f_store (init_fleet ms) = (if ms = [] then (\<lambda>a. \<lparr>chan = a, capacity = 0, inUse = 0\<rparr>)
      else (\<lambda>a. \<lparr>chan = a, capacity = 0, inUse = 0\<rparr>)(chan ml := ml, chan ll := ll))"
    by (simp add: init_fleet_def st)
  ultimately show ?thesis using assms ne
    by (simp add: fleet_inv_def fresh_members_def same_limiter_simps)
      (simp add: init_fleet_def comp_def case_prod_beta)
qed

lemma fleet_inv_reachable:
  assumes "open_env A" "fresh_members ml ll ms" "fleet_reachable A (init_fleet ms) f"
  shows "fleet_inv A ml ll ms f"
  using assms(3)
proof (induction rule: fleet_reachable.induct)
  case fleet_init
  show ?case by (rule fleet_inv_init [OF assms(2)])
next
  case (fleet_next f l f')
  show ?case
  proof (cases l)
    case (Member i x)
    with fleet_next show ?thesis by (auto split: if_splits intro: fleet_inv_member [OF assms(1,2)])
  next
    case CancelAll
    with fleet_next show ?thesis by (auto intro: fleet_inv_cancel [OF assms(1)])
  qed
qed

text \<open>
  C7: a fleet refines its classes. In every state a process whose classes start with the same
  two limiters can reach, whatever is assumed of the environment of a class itself, what one
  class sees is a state its own system reaches, with the other classes reduced to permits
  that are taken and returned; and the permits in use are exactly those the classes hold
  together. So what is proved of one class in every environment holds for each class of the
  process.
\<close>

theorem fleet_refines_classes:
  assumes "open_env A" "fresh_members ml ll ms" "fleet_reachable A (init_fleet ms) f" "i < length ms"
  shows "reachable (fst (ms ! i)) A (snd (ms ! i)) (view f (f_members f ! i))
     \<and> sum_list (map m_mint (f_members f)) = inUse (f_store f (chan ml))
     \<and> sum_list (map m_launch (f_members f)) = inUse (f_store f (chan ll))"
  using fleet_inv_reachable [OF assms(1-3)] assms(4) by (simp add: fleet_inv_def)

text \<open>
  What the fleet promises of its members: the pool of each class stays within its bound, and
  together they hold no more permits than the limiters have.
\<close>

lemma fleet_bounds:
  assumes op: "open_env A" and fresh: "fresh_members ml ll ms" and r: "fleet_reachable A (init_fleet ms) f"
    and pos: "list_all (\<lambda>m. 0 < ss_MaxRunners (o_spec (fst m))) ms"
    and i: "i < length ms"
  shows "int (tracker_size (s_tracker (shared (m_sys (f_members f ! i))))) + spawnInflight (shared (m_sys (f_members f ! i)))
       \<le> ss_MaxRunners (o_spec (fst (ms ! i)))
     \<and> sum_list (map m_mint (f_members f)) \<le> capacity ml
     \<and> sum_list (map m_launch (f_members f)) \<le> capacity ll"
proof -
  have inv: "fleet_inv A ml ll ms f" by (rule fleet_inv_reachable [OF op fresh r])
  let ?m = "f_members f ! i"
  have "reachable (fst (ms ! i)) A (snd (ms ! i)) (view f ?m)"
    using inv i by (auto simp: fleet_inv_def)
  from fresh_pool_inv [OF fresh i this] have "within_bounds (pool_limit (fst (ms ! i))) (shared (view f ?m))"
    by (simp add: pool_inv_def)
  moreover have "pool_limit (fst (ms ! i)) = ss_MaxRunners (o_spec (fst (ms ! i)))"
    using pos i by (simp add: list_all_length pool_limit_def)
  moreover have "s_tracker (shared (view f ?m)) = s_tracker (shared (m_sys ?m))"
    "spawnInflight (shared (view f ?m)) = spawnInflight (shared (m_sys ?m))"
    by (simp_all add: view_def with_limiters_def)
  ultimately show ?thesis using inv fleet_inv_limiters [OF inv i]
    by (simp add: within_bounds_def view_limiters fleet_inv_def same_limiter_def)
qed

section \<open>Witness\<close>

text \<open>Two classes; a spawn of the first holds one of the four mint permits.\<close>

definition sample_members :: "(orch \<times> shared) list" where
  "sample_members = [(sample_orch, sample_shared), (sample_orch, sample_shared)]"

theorem fleet_refines_classes_witness:
  "\<exists>f. fleet_reachable any_env (init_fleet sample_members) f
     \<and> inUse (f_store f (chan (mintLimiter sample_shared))) = 1
     \<and> othersMint (shared (view f (f_members f ! 1))) = 1
     \<and> reachable sample_orch any_env sample_shared (view f (f_members f ! 1))"
proof -
  let ?ml = "mintLimiter sample_shared" and ?ll = "launchLimiter sample_shared"
  let ?ls = "[Member 0 (Desired 1), Member 0 (Thread 1 NoReply), Member 0 (Thread 1 NoReply),
      Member 0 (Thread 2 (Choice True))]"
  have u: "ss_MaxRunners (o_spec sample_orch) = 2" by (simp add: sample_defs)
  obtain f where f: "fleet_run any_env ?ls (init_fleet sample_members) = Some f"
    "inUse (f_store f (chan ?ml)) = 1" "othersMint (shared (view f (f_members f ! 1))) = 1"
    by (simp add: run_simps u sample_members_def init_fleet_def fleet_down_def view_def mint_of_def launch_of_def
        with_limiters_def after_step_def any_env_def channels_def sample_shared_def)
  have fresh: "fresh_members ?ml ?ll sample_members"
    by (auto simp: fresh_members_def sample_members_def sample_shared_def init_shared_def)
  have r: "fleet_reachable any_env (init_fleet sample_members) f"
    using fleet_run_reachable [OF fleet_init f(1)] .
  from fleet_refines_classes [OF open_any fresh r, of 1] f(2,3) r show ?thesis
    by (auto simp: sample_members_def)
qed

end
