(* ===== verification/Configuration_Samples.thy ===== *)
theory Configuration_Samples imports Configuration begin

text \<open>
  A concrete configuration the witnesses evaluate: the least a user has to write (GitHub,
  one class, a storage pool), before and after the defaults.
\<close>

definition sample_class :: RunnerClassConfig where
  "sample_class = \<lparr>VCPUs = 4, MemoryGiB = 8, DiskGiB = 20, Arch = ''amd64'', MaxRunners = 2\<rparr>"

definition minimal_config :: Config where
  "minimal_config =
     \<lparr>GitHub = \<lparr>ConfigURL = ''https://github.com/o'',
         Auth = \<lparr>Mode = ''pat'', PATFile = ''/pat'',
                 App = \<lparr>ClientID = [], PrivateKeyFile = [], InstallationID = 0\<rparr>\<rparr>\<rparr>,
      ScaleSets = \<lparr>Prefix = [], RunnerGroup = [], BaseLabels = [''linux''], Classes = [sample_class]\<rparr>,
      Incus = \<lparr>URL = [], SocketPath = [], CertFile = [], KeyFile = [], ServerCertFile = [],
         InsecureSkipVerify = False, Project = [], DefaultProfile = [], StoragePool = ''default'',
         RequestTimeout = 0\<rparr>,
      RunnerCfg = \<lparr>ImageServer = [], ImageProtocol = [], ImageAlias = [], WorkFolder = [],
         RegistrationTimeout = 0, MaxJobDuration = 0, ReleaseCacheTTL = None, MaxParallelMints = 0,
         MaxParallelLaunches = 0, InstanceType = [], Privileged = False, UseBakedImage = False\<rparr>,
      Observability = \<lparr>ListenAddr = []\<rparr>\<rparr>"

definition sample_config :: Config where
  "sample_config = applyDefaults minimal_config"

definition sample_url_parse :: "string \<Rightarrow> (string \<times> string) option" where
  "sample_url_parse s = Some (''https'', ''github.com'')"

end
