(* ===== verification/Configuration_Correct.thy ===== *)
theory Configuration_Correct imports Configuration_Samples begin

text \<open>
  What internal/config promises: Validate accepts exactly the declared configurations, the
  defaults turn a minimal configuration into a valid one and touch nothing that is set,
  class names are injective and fit the runner-name budget, labels keep the first spelling
  of every label, a work folder cannot leave its directory.
\<close>

section \<open>Declarative validity\<close>

definition class_ok :: "RunnerClassConfig \<Rightarrow> bool" where
  "class_ok c \<longleftrightarrow> VCPUs c > 0 \<and> MemoryGiB c > 0 \<and> DiskGiB c > 0 \<and> MaxRunners c > 0
     \<and> Arch c \<in> {ArchAMD64, ArchARM64}"

definition classes_ok :: "(nat \<Rightarrow> nat) \<Rightarrow> string \<Rightarrow> bool \<Rightarrow> RunnerClassConfig list \<Rightarrow> bool" where
  "classes_ok u prefix baked cs \<longleftrightarrow>
     (\<forall>c \<in> set cs. class_ok c \<and> length (ScaleSetName u c prefix) \<le> 54)
     \<and> distinct (map (\<lambda>c. ScaleSetName u c prefix) cs)
     \<and> (baked \<longrightarrow> (\<forall>c \<in> set cs. \<forall>d \<in> set cs. Arch c = Arch d))"

definition github_ok :: "(string \<Rightarrow> (string \<times> string) option) \<Rightarrow> GitHubConfig \<Rightarrow> bool" where
  "github_ok url_parse g \<longleftrightarrow>
     ConfigURL g \<noteq> []
     \<and> (\<exists>scheme host. url_parse (ConfigURL g) = Some (scheme, host) \<and> scheme \<noteq> [] \<and> host \<noteq> [])
     \<and> (Mode (Auth g) = ''pat'' \<and> PATFile (Auth g) \<noteq> []
        \<or> Mode (Auth g) = ''app'' \<and> ClientID (App (Auth g)) \<noteq> []
          \<and> PrivateKeyFile (App (Auth g)) \<noteq> [] \<and> InstallationID (App (Auth g)) \<noteq> 0)"

definition incus_ok :: "IncusConfig \<Rightarrow> bool" where
  "incus_ok i \<longleftrightarrow> (URL i \<noteq> [] \<longrightarrow> CertFile i \<noteq> [] \<and> KeyFile i \<noteq> [])
     \<and> StoragePool i \<noteq> [] \<and> RequestTimeout i > 0"

definition runner_ok :: "RunnerConfig \<Rightarrow> bool" where
  "runner_ok r \<longleftrightarrow> validWorkFolder (WorkFolder r)
     \<and> RegistrationTimeout r > 0 \<and> MaxJobDuration r > 0
     \<and> (\<exists>t \<ge> 0. ReleaseCacheTTL r = Some t)
     \<and> MaxParallelMints r > 0 \<and> MaxParallelLaunches r > 0
     \<and> (InstanceType r = ''container'' \<or> InstanceType r = ''vm'' \<and> \<not> Privileged r)"

definition valid_config ::
  "(nat \<Rightarrow> nat) \<Rightarrow> (string \<Rightarrow> (string \<times> string) option) \<Rightarrow> Config \<Rightarrow> bool" where
  "valid_config u url_parse c \<longleftrightarrow>
     github_ok url_parse (GitHub c)
     \<and> validNamePrefix (Prefix (ScaleSets c)) \<and> Classes (ScaleSets c) \<noteq> []
     \<and> classes_ok u (Prefix (ScaleSets c)) (UseBakedImage (RunnerCfg c)) (Classes (ScaleSets c))
     \<and> incus_ok (Incus c) \<and> runner_ok (RunnerCfg c)"

lemmas config_consts = InstanceTypeVM_def InstanceTypeContainer_def AuthModePAT_def
  AuthModeApp_def ArchAMD64_def ArchARM64_def

lemma check_Nil [simp]: "check b e = [] \<longleftrightarrow> b"
  by (simp add: check_def)

lemma validate_github_Nil: "validate_github url_parse g = [] \<longleftrightarrow> github_ok url_parse g"
  by (auto simp: validate_github_def github_ok_def Let_def config_consts
      split: if_splits option.splits)

lemma validate_incus_Nil: "validate_incus i = [] \<longleftrightarrow> incus_ok i"
  by (auto simp: validate_incus_def incus_ok_def)

lemma validate_runner_Nil: "validate_runner r = [] \<longleftrightarrow> runner_ok r"
  by (auto simp: validate_runner_def runner_ok_def config_consts split: option.splits)

lemma validate_classes_Nil:
  "validate_classes u p baked i seen ba cs = [] \<longleftrightarrow>
     (\<forall>c \<in> set cs. class_ok c \<and> length (ScaleSetName u c p) \<le> 54)
     \<and> distinct (map (\<lambda>c. ScaleSetName u c p) cs)
     \<and> (\<forall>c \<in> set cs. ScaleSetName u c p \<notin> seen)
     \<and> (baked \<longrightarrow> (\<forall>c \<in> set cs. Arch c = (if ba = [] then Arch (hd cs) else ba)))"
proof (induction cs arbitrary: i seen ba)
  case (Cons c cs)
  let ?n = "\<lambda>c. ScaleSetName u c p" and ?ba = "if baked \<and> ba = [] then Arch c else ba"
  have step: "validate_classes u p baked i seen ba (c # cs) = [] \<longleftrightarrow>
     (class_ok c \<and> length (?n c) \<le> 54) \<and> ?n c \<notin> seen \<and> (baked \<longrightarrow> Arch c = ?ba)
     \<and> validate_classes u p baked (Suc i) (insert (?n c) seen) ?ba cs = []"
    by (simp add: Let_def class_ok_def maxScaleSetNameLen_def)
  have arch: "class_ok c \<Longrightarrow> Arch c \<noteq> []"
    by (auto simp: class_ok_def config_consts)
  have fresh: "?n c \<notin> seen \<and> distinct (map ?n cs) \<and> (\<forall>d \<in> set cs. ?n d \<notin> insert (?n c) seen)
     \<longleftrightarrow> distinct (map ?n (c # cs)) \<and> (\<forall>d \<in> set (c # cs). ?n d \<notin> seen)"
    by (auto, metis imageI)
  have baked: "class_ok c \<Longrightarrow>
     (baked \<longrightarrow> Arch c = ?ba) \<and> (baked \<longrightarrow> (\<forall>d \<in> set cs. Arch d = (if ?ba = [] then Arch (hd cs) else ?ba)))
     \<longleftrightarrow> (baked \<longrightarrow> (\<forall>d \<in> set (c # cs). Arch d = (if ba = [] then Arch (hd (c # cs)) else ba)))"
    using arch by auto
  show ?case
    unfolding step Cons.IH using fresh baked by auto
qed simp

lemma classes_ok_Cons:
  "classes_ok u p baked (c # cs) \<longleftrightarrow> validate_classes u p baked 0 {} [] (c # cs) = []"
  unfolding validate_classes_Nil classes_ok_def by auto

lemma validate_scale_sets_Nil:
  "validate_scale_sets u baked s = [] \<longleftrightarrow>
     validNamePrefix (Prefix s) \<and> Classes s \<noteq> [] \<and> classes_ok u (Prefix s) baked (Classes s)"
  by (cases "Classes s") (simp_all add: validate_scale_sets_def classes_ok_Cons
      del: validate_classes.simps(2))

lemma Validate_iff: "Validate u url_parse c = None \<longleftrightarrow> valid_config u url_parse c"
  by (auto simp: Validate_def Let_def valid_config_def validate_github_Nil
      validate_scale_sets_Nil validate_incus_Nil validate_runner_Nil)

text \<open>
  C24: Validate returns nil exactly on the configurations the declarative predicate
  \<open>valid_config\<close> describes: a URL with scheme and host, one complete auth mode, a legal
  prefix, at least one class, every class with positive sizes, a known architecture and a
  name of at most 54 bytes, no two classes with one name, one architecture when the image is
  baked, client certificates for HTTPS, a storage pool, positive timeouts and limits, and
  privileged mode on containers only (which the comment on the field does not say: it has
  privileged ignored on a VM).
\<close>

theorem Validate_iff_valid_config: "Validate u url_parse c = None \<longleftrightarrow> valid_config u url_parse c"
  by (rule Validate_iff)

section \<open>Defaults and Parse\<close>

lemma defaults_idem:
  "default_str d (default_str d s) = default_str d s" "default_int n (default_int n i) = default_int n i"
  by (simp_all add: default_str_def default_int_def)

lemma defaults_scale_sets_idem: "defaults_scale_sets (defaults_scale_sets s) = defaults_scale_sets s"
  by (simp add: defaults_scale_sets_def defaults_idem)

lemma defaults_incus_idem: "defaults_incus (defaults_incus i) = defaults_incus i"
  by (simp add: defaults_incus_def defaults_idem)

lemma defaults_runner_idem: "defaults_runner (defaults_runner r) = defaults_runner r"
  by (simp add: defaults_runner_def defaults_image_def Let_def defaults_idem split: option.splits)

lemma applyDefaults_idem: "applyDefaults (applyDefaults c) = applyDefaults c"
  by (simp add: applyDefaults_def defaults_scale_sets_idem defaults_incus_idem defaults_runner_idem)

lemma default_str_not_Nil: "d \<noteq> [] \<Longrightarrow> default_str d s \<noteq> []"
  by (simp add: default_str_def)

lemma applyDefaults_filled:
  "Project (Incus (applyDefaults c)) \<noteq> []"
  "DefaultProfile (Incus (applyDefaults c)) \<noteq> []"
  "RunnerGroup (ScaleSets (applyDefaults c)) \<noteq> []"
  "ImageAlias (RunnerCfg (applyDefaults c)) \<noteq> []"
  by (simp_all add: applyDefaults_def defaults_incus_def defaults_scale_sets_def
      defaults_runner_def defaults_image_def Let_def default_str_not_Nil)

text \<open>
  C25: a configuration that Parse (and so Load) returns is valid, is a fixed point of the
  defaults, and has the fields the rest of the program needs without checking them again:
  project, profile, runner group and image alias are not empty.
\<close>

theorem Parse_returns_valid:
  assumes "Parse u url_parse decode raw = Inr cfg"
  shows "valid_config u url_parse cfg \<and> applyDefaults cfg = cfg
     \<and> Project (Incus cfg) \<noteq> [] \<and> DefaultProfile (Incus cfg) \<noteq> []
     \<and> RunnerGroup (ScaleSets cfg) \<noteq> [] \<and> ImageAlias (RunnerCfg cfg) \<noteq> []"
proof -
  from assms obtain c where "cfg = applyDefaults c" and "Validate u url_parse cfg = None"
    by (auto simp: Parse_def Let_def split: sum.splits option.splits)
  then show ?thesis
    using applyDefaults_filled applyDefaults_idem Validate_iff by metis
qed

lemma sample_config_valid: "valid_config id sample_url_parse sample_config"
proof -
  have "validNamePrefix ''incuse''" "validWorkFolder ''_work''"
    "length (ScaleSetName id sample_class ''incuse'') \<le> 54" by code_simp+
  moreover have "class_ok sample_class" by (simp add: class_ok_def sample_class_def config_consts)
  ultimately show ?thesis
    by (simp add: valid_config_def sample_config_def minimal_config_def applyDefaults_def github_ok_def
        sample_url_parse_def defaults_scale_sets_def defaults_incus_def defaults_runner_def
        defaults_image_def default_str_def default_int_def Let_def classes_ok_def incus_ok_def runner_ok_def
        config_consts hour_def minute_def second_def)
qed

lemma sample_config_parse:
  "Parse id sample_url_parse (\<lambda>_. Inr minimal_config) raw = (Inr sample_config :: (unit load_error, Config) result)"
  using Validate_iff [THEN iffD2, OF sample_config_valid]
  by (simp add: Parse_def Let_def sample_config_def [symmetric])

theorem Parse_returns_valid_witness:
  "valid_config id sample_url_parse sample_config \<and> applyDefaults sample_config = sample_config"
  using Parse_returns_valid [OF sample_config_parse] by blast

section \<open>Names\<close>

lemma split_at_sep:
  assumes "a @ c # x = b @ c # y" "c \<notin> set a" "c \<notin> set b"
  shows "a = b \<and> x = y"
  using assms
proof (induction a arbitrary: b)
  case Nil
  then show ?case by (cases b) auto
next
  case (Cons z a)
  then show ?case by (cases b) auto
qed

lemma itoa_chars: "c \<in> set (itoa i) \<Longrightarrow> is_digit c \<or> c = CHR ''-''"
  by (auto simp: itoa_def dest: nat_str_digits split: if_splits)

lemma itoa_no_letter: "CHR ''v'' \<notin> set (itoa i)" "CHR ''g'' \<notin> set (itoa i)"
  using itoa_chars by (fastforce simp: is_digit_def)+

lemma arch_lower: "class_ok c \<Longrightarrow> to_lower u (Arch c) = Arch c"
  by (auto simp: class_ok_def config_consts to_lower_id ascii_def is_upper_def byte_def)

text \<open>
  The generated scale-set name determines the shape of the class: two valid classes get
  the same name under a prefix exactly when their CPU, memory, disk and architecture agree,
  so the duplicate check of Validate is a check on shapes.
\<close>

theorem ScaleSetName_injective:
  assumes "class_ok c" and "class_ok d"
  shows "ScaleSetName u c prefix = ScaleSetName u d prefix \<longleftrightarrow>
     VCPUs c = VCPUs d \<and> MemoryGiB c = MemoryGiB d \<and> DiskGiB c = DiskGiB d \<and> Arch c = Arch d"
proof
  assume "ScaleSetName u c prefix = ScaleSetName u d prefix"
  then have "itoa (VCPUs c) @ CHR ''v'' # ''cpu-'' @ itoa (MemoryGiB c) @ CHR ''g'' # ''b-''
       @ itoa (DiskGiB c) @ CHR ''g'' # ''b-'' @ Arch c
     = itoa (VCPUs d) @ CHR ''v'' # ''cpu-'' @ itoa (MemoryGiB d) @ CHR ''g'' # ''b-''
       @ itoa (DiskGiB d) @ CHR ''g'' # ''b-'' @ Arch d"
    using assms by (simp add: ScaleSetName_def arch_lower)
  then show "VCPUs c = VCPUs d \<and> MemoryGiB c = MemoryGiB d \<and> DiskGiB c = DiskGiB d \<and> Arch c = Arch d"
    by (auto dest!: split_at_sep simp: itoa_no_letter itoa_inj)
qed (simp add: ScaleSetName_def)

theorem ScaleSetName_injective_witness:
  "ScaleSetName id \<lparr>VCPUs = 4, MemoryGiB = 8, DiskGiB = 20, Arch = ''amd64'', MaxRunners = 3\<rparr> ''incuse''
   \<noteq> ScaleSetName id \<lparr>VCPUs = 4, MemoryGiB = 8, DiskGiB = 20, Arch = ''arm64'', MaxRunners = 3\<rparr> ''incuse''"
  by (subst ScaleSetName_injective) (simp_all add: class_ok_def config_consts)

section \<open>Labels\<close>

text \<open>
  The positions of a label list whose label is not empty and not a case variant of an
  earlier non-empty label.
\<close>

definition first_spellings :: "(nat \<Rightarrow> nat) \<Rightarrow> string list \<Rightarrow> string list" where
  "first_spellings u ls =
     map (\<lambda>i. ls ! i)
       (filter (\<lambda>i. ls ! i \<noteq> [] \<and> (\<forall>j < i. ls ! j \<noteq> [] \<longrightarrow> to_lower u (ls ! j) \<noteq> to_lower u (ls ! i)))
         [0..<length ls])"

lemma first_spellings_snoc:
  "first_spellings u (ls @ [l]) = first_spellings u ls @
     (if l \<noteq> [] \<and> to_lower u l \<notin> to_lower u ` {m \<in> set ls. m \<noteq> []} then [l] else [])"
proof -
  have 1: "map (\<lambda>i. (ls @ [l]) ! i) (filter (\<lambda>i. (ls @ [l]) ! i \<noteq> [] \<and> (\<forall>j < i. (ls @ [l]) ! j \<noteq> []
        \<longrightarrow> to_lower u ((ls @ [l]) ! j) \<noteq> to_lower u ((ls @ [l]) ! i))) [0..<length ls])
      = first_spellings u ls"
    unfolding first_spellings_def by (intro map_cong filter_cong) (auto simp: nth_append)
  have 2: "(\<forall>j < length ls. (ls @ [l]) ! j \<noteq> [] \<longrightarrow> to_lower u ((ls @ [l]) ! j) \<noteq> to_lower u l)
      \<longleftrightarrow> to_lower u l \<notin> to_lower u ` {m \<in> set ls. m \<noteq> []}"
  proof -
    have "{m \<in> set ls. m \<noteq> []} = (\<lambda>j. ls ! j) ` {j. j < length ls \<and> ls ! j \<noteq> []}"
      by (auto simp: in_set_conv_nth)
    then show ?thesis by (auto simp: nth_append image_image) (metis (mono_tags, lifting) imageI mem_Collect_eq)
  qed
  show ?thesis
    unfolding first_spellings_def [of u "ls @ [l]"]
    by (simp add: 1 2 [simplified])
qed

lemma fold_add_label:
  "fold (add_label u) ls ({}, []) =
     (to_lower u ` {l \<in> set ls. l \<noteq> []}, first_spellings u ls)"
proof (induction ls rule: rev_induct)
  case Nil
  then show ?case by (simp add: first_spellings_def)
next
  case (snoc l ls)
  show ?case
    unfolding fold_append comp_apply snoc
    by (auto simp: add_label_def Let_def first_spellings_snoc)
qed

lemma ScaleSetLabels_first: "ScaleSetLabels u base n = first_spellings u (base @ [n])"
  by (simp add: ScaleSetLabels_def fold_add_label [of u "base @ [n]", simplified])

text \<open>
  ScaleSetLabels returns, in order, the base labels and then the class name, without
  the empty ones and without every later spelling of a label already there.
\<close>

theorem ScaleSetLabels_spec: "ScaleSetLabels u base className = first_spellings u (base @ [className])"
  by (rule ScaleSetLabels_first)

lemma first_spellings_distinct: "distinct (map (to_lower u) (first_spellings u ls))"
  by (induction ls rule: rev_induct)
    (auto simp: first_spellings_snoc, auto simp: first_spellings_def)

lemma first_spellings_cover:
  "to_lower u ` set (first_spellings u ls) = to_lower u ` {l \<in> set ls. l \<noteq> []}"
proof (induction ls rule: rev_induct)
  case (snoc l ls)
  have "to_lower u ` set (first_spellings u (ls @ [l]))
      = to_lower u ` set (first_spellings u ls) \<union> (if l \<noteq> [] \<and> to_lower u l \<notin> to_lower u ` {m \<in> set ls. m \<noteq> []}
          then {to_lower u l} else {})"
    unfolding first_spellings_snoc by simp
  also have "\<dots> = to_lower u ` {m \<in> set (ls @ [l]). m \<noteq> []}"
    unfolding snoc by auto
  finally show ?case .
qed (simp add: first_spellings_def)

section \<open>Work folders\<close>

lemma contains_segments: "w \<in> set (segments s) \<Longrightarrow> \<exists>a b. s = a @ w @ b"
proof (induction s arbitrary: w)
  case (Cons c s)
  have eq: "segments (c # s) = (if c = CHR ''/'' then [] # segments s
      else (c # hd (segments s)) # tl (segments s))"
    by (cases "segments s") auto
  have pre: "\<exists>b. s = hd (segments s) @ b" for s
    by (induction s) (auto split: list.splits)
  show ?case
  proof (cases "w \<in> set (segments s)")
    case True
    then obtain a b where "s = a @ w @ b" using Cons.IH by blast
    then show ?thesis by (metis append_Cons)
  next
    case False
    then have "w = [] \<or> w = c # hd (segments s)"
      using Cons.prems eq by (metis list.set_sel(2) segments_not_Nil set_ConsD)
    then show ?thesis using pre [of s] by (metis append_Cons append_Nil)
  qed
qed simp

text \<open>
  An accepted work folder is a relative path whose segments are not empty, are not the
  parent directory and hold only letters, digits, dots, dashes and underscores; so it names
  a directory below /opt/runner and carries no white space, quote or shell metacharacter
  into the cloud-init template.
\<close>

theorem validWorkFolder_safe:
  assumes "validWorkFolder s"
  shows "\<forall>w \<in> set (segments s). w \<noteq> [] \<and> w \<noteq> ''..'' \<and> list_all path_char w"
proof -
  from assms have "list_all good_segment (segments s)" and nodots: "\<not> contains s ''..''"
    by (simp_all add: validWorkFolder_def workFolder_matches)
  then show ?thesis
    using contains_segments nodots unfolding contains_iff list_all_iff by blast
qed

theorem validWorkFolder_safe_witness: "''..'' \<notin> set (segments ''_work/jobs'')"
proof -
  have "validWorkFolder ''_work/jobs''" by code_simp
  from validWorkFolder_safe [OF this] show ?thesis by blast
qed

end
