(* ===== verification/Deployment.thy ===== *)
theory Deployment imports Configuration_Correct Naming Incus_Client Resolver Samples begin

text \<open>
  What the validation of the configuration buys the rest of the program: every class of a
  valid configuration has runner names that fit without truncation, is accepted by the
  constructor of the orchestrator, and leads to launch requests the Incus client accepts and
  to cloud-init payloads that render.
\<close>

section \<open>The classes of a valid configuration\<close>

lemma spec_of_class:
  assumes "valid_config u url_parse c" "spec \<in> set (ScaleSetSpecs u c)"
  obtains cl where "cl \<in> set (Classes (ScaleSets c))" "class_ok cl"
    "ss_Name spec = ScaleSetName u cl (Prefix (ScaleSets c))" "length (ss_Name spec) \<le> 54"
    "ss_MaxRunners spec = MaxRunners cl" "ss_Runner spec = RunnerSpec_of u cl"
    "ss_RunnerGroup spec = RunnerGroup (ScaleSets c)"
    "ss_BaseLabels spec = ScaleSetLabels u (BaseLabels (ScaleSets c)) (ss_Name spec)"
  using assms by (auto simp: ScaleSetSpecs_def Let_def valid_config_def classes_ok_def)

lemma valid_prefix:
  assumes "valid_config u url_parse c"
  shows "Prefix (ScaleSets c) \<noteq> [] \<and> is_lower (hd (Prefix (ScaleSets c)))
     \<and> list_all name_char (Prefix (ScaleSets c))"
  using assms by (auto simp: valid_config_def validNamePrefix_def namePrefix_matches)

lemma itoa_name_char: "list_all name_char (itoa i)"
  using itoa_chars by (auto simp: list_all_iff name_char_def)

lemma arch_name_char: "class_ok cl \<Longrightarrow> list_all name_char (to_lower u (Arch cl))"
  by (simp add: arch_lower)
    (auto simp: class_ok_def config_consts name_char_def is_lower_def is_digit_def byte_def)

lemma ScaleSetName_chars:
  assumes "list_all name_char prefix" "class_ok cl"
  shows "list_all name_char (ScaleSetName u cl prefix)"
  using assms itoa_name_char arch_name_char [OF assms(2), of u]
  by (simp add: ScaleSetName_def) (simp add: name_char_def is_lower_def is_digit_def byte_def)

section \<open>Runner names\<close>

lemma runner_name_fits:
  assumes v: "valid_config u url_parse c" and s: "spec \<in> set (ScaleSetSpecs u c)"
  shows "sanitizeNamePart u (ss_Name spec) \<noteq> []"
    and "is_lower (hd (sanitizeNamePart u (ss_Name spec)))"
    and "length (sanitizeNamePart u (ss_Name spec)) \<le> 54"
proof -
  obtain cl where cl: "class_ok cl" "ss_Name spec = ScaleSetName u cl (Prefix (ScaleSets c))"
    "length (ss_Name spec) \<le> 54" by (rule spec_of_class [OF v s])
  have p: "Prefix (ScaleSets c) \<noteq> []" "is_lower (hd (Prefix (ScaleSets c)))"
    "list_all name_char (Prefix (ScaleSets c))"
    using valid_prefix [OF v] by blast+
  have n: "list_all name_char (ss_Name spec)" using cl(1,2) p(3) by (simp add: ScaleSetName_chars)
  have h: "ss_Name spec \<noteq> []" "hd (ss_Name spec) = hd (Prefix (ScaleSets c))"
    using cl(2) p(1) by (simp_all add: ScaleSetName_def)
  show "sanitizeNamePart u (ss_Name spec) \<noteq> []" "is_lower (hd (sanitizeNamePart u (ss_Name spec)))"
    using sanitize_name_hd [OF n h(1)] h(2) p(2) by simp_all
  show "length (sanitizeNamePart u (ss_Name spec)) \<le> 54"
    using sanitize_name_length [OF n, of u] cl(3) by linarith
qed

lemma runner_name_facts:
  assumes "valid_config u url_parse c" and "spec \<in> set (ScaleSetSpecs u c)"
  shows "makeRunnerName u (ss_Name spec) (randomNameSuffix rnd nanos)
       = Some (sanitizeNamePart u (ss_Name spec) @ ''-'' @ randomNameSuffix rnd nanos)
     \<and> length (sanitizeNamePart u (ss_Name spec) @ ''-'' @ randomNameSuffix rnd nanos) \<le> 63
     \<and> is_lower (hd (sanitizeNamePart u (ss_Name spec)))
     \<and> dash_label (sanitizeNamePart u (ss_Name spec) @ ''-'' @ randomNameSuffix rnd nanos)"
proof -
  let ?a = "sanitizeNamePart u (ss_Name spec)" and ?b = "randomNameSuffix rnd nanos"
  have b: "length ?b = 8" "dash_label ?b" "sanitizeNamePart u ?b = ?b"
    by (simp_all add: randomNameSuffix_facts alnum_dash_label sanitize_id)
  have a: "?a \<noteq> []" "is_lower (hd ?a)" "length ?a \<le> 54" using runner_name_fits [OF assms] by blast+
  have "makeRunnerName u (ss_Name spec) ?b = Some (?a @ ''-'' @ ?b)"
    using a b(1) by (auto simp: makeRunnerName_eq Let_def b(3))
  moreover have "dash_label (?a @ ''-'' @ ?b)"
    using a(1) b(1,2) by (intro dash_label_join sanitize_dash_label) auto
  ultimately show ?thesis using a(2,3) b(1) by simp
qed

text \<open>
  C28: with a valid configuration the name of a runner is never truncated: for every class
  and every random suffix it is the sanitised scale-set name, a dash and the whole suffix,
  at most 63 bytes (an Incus instance name), starts with a lower-case letter and holds only
  lower-case letters, digits and inner dashes. The bound of 54 bytes in Validate is exactly
  what leaves room for the dash and the eight hexadecimal digits.
\<close>

theorem runner_name_never_truncated:
  assumes "valid_config u url_parse c" and "spec \<in> set (ScaleSetSpecs u c)"
  shows "makeRunnerName u (ss_Name spec) (randomNameSuffix rnd nanos)
       = Some (sanitizeNamePart u (ss_Name spec) @ ''-'' @ randomNameSuffix rnd nanos)
     \<and> length (sanitizeNamePart u (ss_Name spec) @ ''-'' @ randomNameSuffix rnd nanos) \<le> 63
     \<and> is_lower (hd (sanitizeNamePart u (ss_Name spec)))
     \<and> dash_label (sanitizeNamePart u (ss_Name spec) @ ''-'' @ randomNameSuffix rnd nanos)"
  by (rule runner_name_facts [OF assms])

section \<open>The constructor of the orchestrator\<close>

text \<open>The configuration main.go builds for one class.\<close>

definition class_config :: "Config \<Rightarrow> Limiter \<Rightarrow> Limiter \<Rightarrow> ScaleSetConfig \<Rightarrow> orchConfig" where
  "class_config c ml ll spec =
     \<lparr>hasIncusClient = True, scaleSet = Some spec, hasReleaseResolver = True, hasLogger = True,
      cfg_IncusCfg = Incus c, cfg_RunnerCfg = RunnerCfg c,
      cfg_MintLimiter = Some ml, cfg_LaunchLimiter = Some ll, ReapInterval = 0\<rparr>"

lemma wrap_memory: "0 < m \<Longrightarrow> m < 2 ^ 53 \<Longrightarrow> wrap64 (m * 1024) = m * 1024"
  by (simp add: wrap64_def)

lemma class_accepted:
  assumes "valid_config u url_parse c" "applyDefaults c = c" "spec \<in> set (ScaleSetSpecs u c)"
    and "\<forall>cl \<in> set (Classes (ScaleSets c)). MemoryGiB cl < 2 ^ 53"
  shows "check_new (class_config c ml ll spec) = None"
proof -
  obtain cl where cl: "cl \<in> set (Classes (ScaleSets c))" "class_ok cl"
    "ss_MaxRunners spec = MaxRunners cl" "ss_Runner spec = RunnerSpec_of u cl"
    by (rule spec_of_class [OF assms(1,3)])
  have f: "Project (Incus c) \<noteq> []" "DefaultProfile (Incus c) \<noteq> []"
    using applyDefaults_filled [of c] assms(2) by simp_all
  have r: "runner_ok (RunnerCfg c)" using assms(1) by (simp add: valid_config_def)
  have m: "wrap64 (MemoryGiB cl * 1024) = MemoryGiB cl * 1024"
    using wrap_memory cl(1,2) assms(4) by (simp add: class_ok_def)
  show ?thesis
    using f r cl(2-4) m by (auto simp: check_new_None_iff class_config_def runner_ok_def class_ok_def
        RunnerSpec_of_def arch_lower)
qed

text \<open>
  C29: a configuration that Parse accepts is accepted by the constructor of the orchestrator
  for every one of its classes, given a memory size below 2^53 GiB: no class can make the
  process fail after the first scale sets have been registered. (Validate has no upper bound
  on memory_gib, and the product with 1024 wraps around beyond it.)
\<close>

theorem parsed_classes_accepted:
  assumes "Parse u url_parse decode raw = Inr c" and "spec \<in> set (ScaleSetSpecs u c)"
    and "\<forall>cl \<in> set (Classes (ScaleSets c)). MemoryGiB cl < 2 ^ 53"
  shows "is_ok (New u addr sid old (class_config c ml ll spec))"
proof -
  from assms(1) obtain c' where "c = applyDefaults c'" "Validate u url_parse c = None"
    by (auto simp: Parse_def Let_def split: sum.splits option.splits)
  then have "check_new (class_config c ml ll spec) = None"
    using class_accepted [OF _ _ assms(2,3)] by (simp add: Validate_iff applyDefaults_idem)
  then show ?thesis by (simp add: New_def Let_def)
qed

section \<open>Launch requests and payloads\<close>

text \<open>
  Every launch request built for a class of a valid configuration passes the checks of
  the Incus client, whatever the runner name (if any), the payload and the time are.
\<close>

theorem launch_requests_valid:
  assumes "valid_config u url_parse c" "applyDefaults c = c" "spec \<in> set (ScaleSetSpecs u c)"
    and "o_spec o1 = spec" "o_incusCfg o1 = Incus c" "o_runnerCfg o1 = RunnerCfg c" "runnerName \<noteq> []"
  shows "validateLaunch (buildLaunchRequest (launch_inputs o1 runnerName ci mintedAt)) = None"
proof -
  obtain cl where cl: "class_ok cl" "ss_Runner spec = RunnerSpec_of u cl"
    by (rule spec_of_class [OF assms(1,3)])
  have "ImageAlias (RunnerCfg c) \<noteq> []" using applyDefaults_filled [of c] assms(2) by simp
  then show ?thesis
    using cl assms(4-7) by (auto simp: validateLaunch_def buildLaunchRequest_def launch_inputs_def Let_def
        RunnerSpec_of_def arch_lower class_ok_def config_consts InstanceTypeContainer_incus_def
        InstanceTypeVM_incus_def)
qed

text \<open>
  The payload of a spawn renders whenever GitHub returned a JIT configuration and, unless
  the image is baked, the release has a version, a URL and a digest: the configured work
  folder and the runner name never make it fail.
\<close>

theorem spawn_payload_renders:
  assumes "valid_config u url_parse c" "o_runnerCfg o1 = RunnerCfg c" "jit \<noteq> []" "runnerName \<noteq> []"
    and "UseBakedImage (RunnerCfg c) \<or> Version (release_of rel) \<noteq> [] \<and> DownloadURL (release_of rel) \<noteq> []
      \<and> SHA256 (release_of rel) \<noteq> []"
  shows "is_ok (Render (cloud_init_spec o1 rel jit runnerName))"
proof -
  have "validWorkFolder (WorkFolder (RunnerCfg c))" using assms(1) by (simp add: valid_config_def runner_ok_def)
  then have "WorkFolder (RunnerCfg c) \<noteq> []" by (auto simp: validWorkFolder_def)
  then show ?thesis
    using assms(2-5) by (auto simp: Render_def validate_cloudinit_def cloud_init_spec_def)
qed

lemma path_no_newline: "validWorkFolder w \<Longrightarrow> newline \<notin> set w"
proof -
  assume w: "validWorkFolder w"
  have "c \<in> set s \<Longrightarrow> c = CHR ''/'' \<or> (\<exists>p \<in> set (segments s). c \<in> set p)" for c and s :: string
    by (induction s) (auto split: list.splits if_splits)
  then have "c = CHR ''/'' \<or> path_char c" if "c \<in> set w" for c
    using that validWorkFolder_safe [OF w] unfolding list_all_iff by blast
  moreover have "\<not> (newline = CHR ''/'' \<or> path_char newline)" by code_simp
  ultimately show ?thesis by blast
qed

lemma label_no_newline: "dash_label n \<Longrightarrow> newline \<notin> set n"
proof -
  have "\<not> name_char newline" by code_simp
  then show "dash_label n \<Longrightarrow> newline \<notin> set n" by (auto simp: dash_label_def list_all_iff)
qed

lemma hex_no_newline: "list_all is_hex s \<Longrightarrow> newline \<notin> set s"
proof -
  have "\<not> is_hex newline" by code_simp
  then show "list_all is_hex s \<Longrightarrow> newline \<notin> set s" by (auto simp: list_all_iff)
qed


section \<open>Witnesses\<close>

definition sample_class_spec :: ScaleSetConfig where
  "sample_class_spec = hd (ScaleSetSpecs id sample_config)"

lemma sample_classes: "Classes (ScaleSets sample_config) = [sample_class]"
  by (simp add: sample_config_def minimal_config_def applyDefaults_def defaults_scale_sets_def)

lemma sample_class_spec_in: "sample_class_spec \<in> set (ScaleSetSpecs id sample_config)"
  by (simp add: sample_class_spec_def ScaleSetSpecs_def sample_classes)

lemma sample_class_spec_name: "ss_Name sample_class_spec = ''incuse-4vcpu-8gb-20gb-amd64''"
  by code_simp

lemma sample_config_defaults: "applyDefaults sample_config = sample_config"
  by (simp add: sample_config_def applyDefaults_idem)

theorem runner_name_never_truncated_witness:
  "\<exists>n. makeRunnerName id ''incuse-4vcpu-8gb-20gb-amd64'' (randomNameSuffix None 0) = Some n
     \<and> length n \<le> 63 \<and> dash_label n"
  using runner_name_never_truncated [OF sample_config_valid sample_class_spec_in, of None 0]
  by (simp add: sample_class_spec_name)

theorem parsed_classes_accepted_witness:
  "is_ok (New id 0 7 {} (class_config sample_config \<lparr>chan = 0, capacity = 4, inUse = 0\<rparr> \<lparr>chan = 1, capacity = 2, inUse = 0\<rparr> sample_class_spec))"
  by (rule parsed_classes_accepted [OF sample_config_parse sample_class_spec_in])
    (simp add: sample_classes sample_class_def)

definition deployed :: orch where
  "deployed = \<lparr>o_lower = id, o_spec = sample_class_spec, o_scaleSetID = 7, o_incusCfg = Incus sample_config,
     o_runnerCfg = RunnerCfg sample_config, o_reapInterval = 30 * second\<rparr>"

theorem launch_requests_valid_witness:
  "validateLaunch (buildLaunchRequest (launch_inputs deployed ''r1'' ''#cloud-config'' 0)) = None"
  by (rule launch_requests_valid [OF sample_config_valid sample_config_defaults sample_class_spec_in])
    (simp_all add: deployed_def)

theorem spawn_payload_renders_witness:
  "is_ok (Render (cloud_init_spec deployed (''2.328.0'', ''u'', ''aa'') ''jit'' ''r1''))"
  by (rule spawn_payload_renders [OF sample_config_valid]) (simp_all add: deployed_def release_of_def)


end
