(* ===== verification/Preflight.thy ===== *)
theory Preflight imports Configuration_Correct "HOL-Library.Word" begin

text \<open>
  internal/config/preflight.go: the check of the files a configuration names. A file mode is
  the 32-bit os.FileMode; os.Stat is an argument, an error or the mode of the file.
\<close>

unbundle bit_operations_syntax

type_synonym filemode = "32 word"

definition ModeDir :: filemode where "ModeDir = push_bit 31 1"

definition ModePerm :: filemode where "ModePerm = 0x1FF"

definition IsDir :: "filemode \<Rightarrow> bool" where
  "IsDir m = (m AND ModeDir \<noteq> 0)"

definition Perm :: "filemode \<Rightarrow> filemode" where
  "Perm m = m AND ModePerm"

text \<open>0o600 and 0o644.\<close>

definition mode600 :: filemode where "mode600 = 0x180"

definition mode644 :: filemode where "mode644 = 0x1A4"

datatype preflight_error =
    NilConfig
  | StatFailed string string string
  | IsDirectory string string
  | PermissionsExceed string string filemode filemode

text \<open>The closure check: what it appends to the errors.\<close>

definition check_file ::
  "(string \<Rightarrow> (string, filemode) result) \<Rightarrow> string \<Rightarrow> string \<Rightarrow> filemode \<Rightarrow> preflight_error list" where
  "check_file stat path what maxMode =
     (if path = [] then []
      else case stat path of
        Inl e \<Rightarrow> [StatFailed what path e]
      | Inr fi \<Rightarrow>
          if IsDir fi then [IsDirectory what path]
          else if Perm fi AND NOT maxMode \<noteq> 0 then [PermissionsExceed what path (Perm fi) maxMode]
          else [])"

definition run_preflight ::
  "(string \<Rightarrow> (string, filemode) result) \<Rightarrow> Config option \<Rightarrow> preflight_error list option" where
  "run_preflight stat cfg =
     (case cfg of None \<Rightarrow> Some [NilConfig] | Some c \<Rightarrow>
      let a = Auth (GitHub c); i = Incus c;
          errs =
            (if Mode a = AuthModePAT then check_file stat (PATFile a) ''github.auth.pat_file'' mode600
             else if Mode a = AuthModeApp
               then check_file stat (PrivateKeyFile (App a)) ''github.auth.app.private_key_file'' mode600
             else [])
            @ (if URL i \<noteq> [] then
                 check_file stat (CertFile i) ''incus.cert_file'' mode600
                 @ check_file stat (KeyFile i) ''incus.key_file'' mode600
                 @ check_file stat (ServerCertFile i) ''incus.server_cert_file'' mode644
               else []) in
      if length errs > 0 then Some errs else None)"

section \<open>What an accepted file is\<close>

text \<open>
  A regular entry whose permission bits (numbered from others' execute, 0, to the owner's
  read, 8) all lie in the given set.
\<close>

definition file_within :: "(string \<Rightarrow> (string, filemode) result) \<Rightarrow> nat set \<Rightarrow> string \<Rightarrow> bool" where
  "file_within stat allowed path \<longleftrightarrow>
     (\<exists>m. stat path = Inr m \<and> \<not> bit m 31 \<and> (\<forall>i < 9. bit m i \<longrightarrow> i \<in> allowed))"

lemma word_zero_iff: "w = 0 \<longleftrightarrow> (\<forall>i. \<not> bit w i)" for w :: filemode
  by (auto intro: bit_eqI)

lemma bit_600: "bit (0x180 :: filemode) i \<longleftrightarrow> i = 7 \<or> i = 8"
proof -
  have "(0x180 :: filemode) = set_bit 7 (set_bit 8 0)" by simp
  then show ?thesis by (simp only: bit_set_bit_iff bit_0_eq bot_apply possible_bit_word) auto
qed

lemma bit_644: "bit (0x1A4 :: filemode) i \<longleftrightarrow> i = 2 \<or> i = 5 \<or> i = 7 \<or> i = 8"
proof -
  have "(0x1A4 :: filemode) = set_bit 2 (set_bit 5 (set_bit 7 (set_bit 8 0)))" by simp
  then show ?thesis by (simp only: bit_set_bit_iff bit_0_eq bot_apply possible_bit_word) auto
qed

lemma bit_777: "bit (0x1FF :: filemode) i \<longleftrightarrow> i < 9"
proof -
  have "(0x1FF :: filemode) = mask 9" by (simp add: mask_numeral)
  then show ?thesis by (simp only: bit_mask_iff possible_bit_word) auto
qed

lemma IsDir_bit: "IsDir m \<longleftrightarrow> bit m 31"
proof -
  have "bit (m AND ModeDir) i \<longleftrightarrow> i = 31 \<and> bit m 31" for i
    unfolding ModeDir_def by (simp only: bit_and_iff bit_push_bit_iff bit_1_iff possible_bit_word) auto
  then show ?thesis unfolding IsDir_def word_zero_iff by blast
qed

lemma perm_within:
  "Perm m AND NOT mx = 0 \<longleftrightarrow> (\<forall>i < 9. bit m i \<longrightarrow> bit mx i)"
proof -
  have b: "bit (Perm m AND NOT mx) i \<longleftrightarrow> i < 9 \<and> bit m i \<and> \<not> bit mx i" for i
    unfolding Perm_def ModePerm_def
    by (simp only: bit_and_iff bit_not_iff bit_777 possible_bit_word) (auto dest: bit_imp_le_length)
  show ?thesis unfolding word_zero_iff b by auto
qed

lemma check_file_Nil:
  "check_file stat path what mx = [] \<longleftrightarrow> path = [] \<or>
     (\<exists>m. stat path = Inr m \<and> \<not> bit m 31 \<and> (\<forall>i < 9. bit m i \<longrightarrow> bit mx i))"
  by (auto simp: check_file_def IsDir_bit perm_within split: sum.splits)

lemma within_600: "(\<exists>m. stat p = Inr m \<and> \<not> bit m 31 \<and> (\<forall>i < 9. bit m i \<longrightarrow> bit mode600 i)) \<longleftrightarrow> file_within stat {7, 8} p"
  unfolding file_within_def mode600_def bit_600 by simp

lemma within_644: "(\<exists>m. stat p = Inr m \<and> \<not> bit m 31 \<and> (\<forall>i < 9. bit m i \<longrightarrow> bit mode644 i)) \<longleftrightarrow> file_within stat {2, 5, 7, 8} p"
  unfolding file_within_def mode644_def bit_644 by simp

lemma run_preflight_None:
  assumes "valid_config u url_parse c"
  shows "run_preflight stat (Some c) = None \<longleftrightarrow>
     (Mode (Auth (GitHub c)) = ''pat'' \<longrightarrow> file_within stat {7, 8} (PATFile (Auth (GitHub c))))
     \<and> (Mode (Auth (GitHub c)) = ''app'' \<longrightarrow> file_within stat {7, 8} (PrivateKeyFile (App (Auth (GitHub c)))))
     \<and> (URL (Incus c) \<noteq> [] \<longrightarrow>
          file_within stat {7, 8} (CertFile (Incus c)) \<and> file_within stat {7, 8} (KeyFile (Incus c))
          \<and> (ServerCertFile (Incus c) = [] \<or> file_within stat {2, 5, 7, 8} (ServerCertFile (Incus c))))"
proof -
  have g: "github_ok url_parse (GitHub c)" and i: "incus_ok (Incus c)"
    using assms by (simp_all add: valid_config_def)
  show ?thesis
    using g i by (auto simp: run_preflight_def Let_def check_file_Nil within_600 within_644 config_consts
        github_ok_def incus_ok_def)
qed



end
