(* ===== verification/Scaleset.thy ===== *)
theory Scaleset imports Configuration_Correct "HOL-Library.List_Lexorder" "HOL-Library.Char_ord"
  "HOL-Library.Multiset" begin

text \<open>
  internal/scaleset/scaleset.go: the options check, Bootstrap (runner group, get or create,
  label reconciliation, session with retry) and the operations that need it. The
  github.com/actions/scaleset client is a record of functions, the answers GitHub gives.
\<close>

section \<open>Data\<close>

record ssLabel =
  label_Name :: string
  label_Type :: string

record RunnerScaleSet =
  rs_ID :: int
  rs_Name :: string
  rs_RunnerGroupID :: int
  rs_Labels :: "ssLabel list"

record Options =
  opt_Spec :: ScaleSetConfig
  ConfigureURL :: string
  PAT :: string
  AppClientID :: string
  AppPrivateKeyPEM :: string
  AppInstallationID :: int
  opt_hasLogger :: bool
  opt_Version :: string

text \<open>The credentials buildClient passes on.\<close>

datatype client_auth =
    PersonalAccessToken string string
  | GitHubApp string string int string

record ScaleSet =
  opts :: Options
  client :: "client_auth option"
  msgClient :: "string option"
  scaleSetID :: int
  listener_max :: "int option"

datatype scaleset_error =
    LoggerMissing
  | ConfigureURLMissing
  | NameMissing
  | RunnerGroupMissing
  | BaseLabelsMissing
  | CredentialsMissing
  | ClientIDMissing
  | InstallationIDMissing
  | CreatingClient string
  | CreatingListener
  | ResolvingGroup string
  | LookingUp string
  | CreatingScaleSet string
  | UpdatingLabels string
  | DeterminingOwner string
  | OpeningSession string
  | Cancelled
  | NotBootstrapped
  | GeneratingJIT string

section \<open>New\<close>

definition scaleset_New :: "Options \<Rightarrow> (scaleset_error, ScaleSet) result" where
  "scaleset_New o1 =
     (if \<not> opt_hasLogger o1 then Inl LoggerMissing
      else if ConfigureURL o1 = [] then Inl ConfigureURLMissing
      else if ss_Name (opt_Spec o1) = [] then Inl NameMissing
      else if ss_RunnerGroup (opt_Spec o1) = [] then Inl RunnerGroupMissing
      else if length (ss_BaseLabels (opt_Spec o1)) = 0 then Inl BaseLabelsMissing
      else if PAT o1 = [] \<and> AppPrivateKeyPEM o1 = [] then Inl CredentialsMissing
      else if PAT o1 = [] \<and> AppClientID o1 = [] then Inl ClientIDMissing
      else if PAT o1 = [] \<and> AppInstallationID o1 = 0 then Inl InstallationIDMissing
      else Inr \<lparr>opts = o1, client = None, msgClient = None, scaleSetID = 0, listener_max = None\<rparr>)"

section \<open>Labels\<close>

definition toLabels :: "string list \<Rightarrow> ssLabel list" where
  "toLabels ns = map (\<lambda>n. \<lparr>label_Name = n, label_Type = []\<rparr>) ns"

definition labelNamesMatch :: "(nat \<Rightarrow> nat) \<Rightarrow> ssLabel list \<Rightarrow> string list \<Rightarrow> bool" where
  "labelNamesMatch u existing want =
     (if length existing \<noteq> length want then False
      else
        let a = sort (map (\<lambda>l. to_lower u (label_Name l)) existing);
            b = sort (map (to_lower u) want) in
        list_all (\<lambda>i. a ! i = b ! i) [0..<length a])"

text \<open>The verbose and the plain form the log lines use.\<close>

definition labelNames :: "ssLabel list \<Rightarrow> string list" where
  "labelNames ls = map (\<lambda>l. label_Name l @ ''(type='' @ label_Type l @ '')'') ls"

definition labelNamesPlain :: "ssLabel list \<Rightarrow> string list" where
  "labelNamesPlain ls = map label_Name ls"

lemma sort_eq_iff:
  fixes xs ys :: "'a :: linorder list"
  shows "length xs = length ys \<and> sort xs = sort ys \<longleftrightarrow> mset xs = mset ys"
proof (rule iffI)
  assume a: "length xs = length ys \<and> sort xs = sort ys"
  have "mset (sort xs) = mset (sort ys)" using a by (rule conjE) (rule arg_cong)
  then show "mset xs = mset ys" unfolding mset_sort .
next
  assume eq: "mset xs = mset ys"
  have "sort xs = sort ys" by (rule properties_for_sort) (simp_all only: mset_sort eq sorted_sort)
  then show "length xs = length ys \<and> sort xs = sort ys" using mset_eq_length [OF eq] by (rule conjI [rotated])
qed

lemma nth_eq_sort:
  "length xs = length ys \<Longrightarrow> (\<forall>n < length xs. sort xs ! n = sort ys ! n) \<longleftrightarrow> sort xs = sort ys"
  unfolding list_eq_iff_nth_eq by simp

lemma labelNamesMatch_mset:
  "labelNamesMatch u existing want \<longleftrightarrow>
     mset (map (\<lambda>l. to_lower u (label_Name l)) existing) = mset (map (to_lower u) want)"
proof -
  let ?e = "map (\<lambda>l. to_lower u (label_Name l)) existing" and ?w = "map (to_lower u) want"
  have "labelNamesMatch u existing want \<longleftrightarrow> length ?e = length ?w \<and> sort ?e = sort ?w"
    unfolding labelNamesMatch_def Let_def
    using nth_eq_sort [of ?e ?w] by (auto simp: list_all_length)
  also have "\<dots> \<longleftrightarrow> mset ?e = mset ?w"
    by (rule sort_eq_iff)
  finally show ?thesis .
qed

text \<open>
  LabelNamesMatch is equality of the two label lists as multisets of lower-cased names:
  neither order nor case matters, multiplicity does.
\<close>

theorem labelNamesMatch_iff:
  "labelNamesMatch u existing want \<longleftrightarrow>
     mset (map (\<lambda>l. to_lower u (label_Name l)) existing) = mset (map (to_lower u) want)"
  by (rule labelNamesMatch_mset)

section \<open>Reconciliation\<close>

text \<open>A call to the scaleSetAPI interface, as GitHub sees it.\<close>

datatype api_call = CreateRunnerScaleSet RunnerScaleSet | UpdateRunnerScaleSet int RunnerScaleSet

type_synonym scale_set_result = "(string, RunnerScaleSet) result"

definition reconcileScaleSet ::
  "(nat \<Rightarrow> nat) \<Rightarrow> (api_call \<Rightarrow> scale_set_result) \<Rightarrow> string \<Rightarrow> int \<Rightarrow> RunnerScaleSet option \<Rightarrow> string list
     \<Rightarrow> (scaleset_error, RunnerScaleSet) result \<times> api_call list" where
  "reconcileScaleSet u api name runnerGroupID existing wantNames =
     (case existing of
        None \<Rightarrow>
          let c = CreateRunnerScaleSet \<lparr>rs_ID = 0, rs_Name = name, rs_RunnerGroupID = runnerGroupID,
                                        rs_Labels = toLabels wantNames\<rparr> in
          (case api c of Inl e \<Rightarrow> (Inl (CreatingScaleSet e), [c]) | Inr ss \<Rightarrow> (Inr ss, [c]))
      | Some ex \<Rightarrow>
          if \<not> labelNamesMatch u (rs_Labels ex) wantNames then
            let c = UpdateRunnerScaleSet (rs_ID ex)
                      \<lparr>rs_ID = 0, rs_Name = rs_Name ex, rs_RunnerGroupID = runnerGroupID,
                       rs_Labels = toLabels wantNames\<rparr> in
            (case api c of Inl e \<Rightarrow> (Inl (UpdatingLabels e), [c]) | Inr ss \<Rightarrow> (Inr ss, [c]))
          else (Inr ex, []))"

text \<open>The scale set a call sends.\<close>

definition sent :: "api_call \<Rightarrow> RunnerScaleSet" where
  "sent c = (case c of CreateRunnerScaleSet s \<Rightarrow> s | UpdateRunnerScaleSet i s \<Rightarrow> s)"

text \<open>
  What the API promises of a call that succeeds: it answers with the labels it was sent, and
  an update keeps the identity of the scale set.
\<close>

definition api_faithful :: "(api_call \<Rightarrow> scale_set_result) \<Rightarrow> bool" where
  "api_faithful api \<longleftrightarrow>
     (\<forall>c r. api c = Inr r \<longrightarrow> labelNamesPlain (rs_Labels r) = labelNamesPlain (rs_Labels (sent c))
        \<and> (\<forall>i s. c = UpdateRunnerScaleSet i s \<longrightarrow> rs_ID r = i \<and> rs_Name r = rs_Name s))"

lemma toLabels_plain [simp]: "labelNamesPlain (toLabels ns) = ns"
  by (simp add: labelNamesPlain_def toLabels_def comp_def)

lemma match_plain: "labelNamesPlain ls = ns \<Longrightarrow> labelNamesMatch u ls ns"
proof -
  assume "labelNamesPlain ls = ns"
  then have "map (\<lambda>l. to_lower u (label_Name l)) ls = map (to_lower u) ns"
    by (auto simp: labelNamesPlain_def)
  then show "labelNamesMatch u ls ns" unfolding labelNamesMatch_mset by simp
qed

lemma faithful_create:
  "api_faithful api \<Longrightarrow> api (CreateRunnerScaleSet s) = Inr r \<Longrightarrow>
     labelNamesPlain (rs_Labels r) = labelNamesPlain (rs_Labels s)"
  unfolding api_faithful_def by (metis sent_def api_call.simps(5))

lemma faithful_update:
  "api_faithful api \<Longrightarrow> api (UpdateRunnerScaleSet i s) = Inr r \<Longrightarrow>
     labelNamesPlain (rs_Labels r) = labelNamesPlain (rs_Labels s) \<and> rs_ID r = i \<and> rs_Name r = rs_Name s"
  unfolding api_faithful_def by (metis sent_def api_call.simps(6))

lemma reconcile_labels:
  assumes "api_faithful api"
    and "reconcileScaleSet u api name g existing wantNames = (Inr ss, calls)"
  shows "labelNamesMatch u (rs_Labels ss) wantNames \<and> length calls \<le> 1
     \<and> (case existing of None \<Rightarrow> True | Some ex \<Rightarrow> rs_ID ss = rs_ID ex \<and> rs_Name ss = rs_Name ex)"
proof (cases existing)
  case None
  let ?s = "\<lparr>rs_ID = 0, rs_Name = name, rs_RunnerGroupID = g, rs_Labels = toLabels wantNames\<rparr>"
  from None assms(2) have r: "api (CreateRunnerScaleSet ?s) = Inr ss" "length calls = 1"
    by (auto simp: reconcileScaleSet_def Let_def split: sum.splits)
  with None faithful_create [OF assms(1) r(1)] show ?thesis by (simp add: match_plain)
next
  case (Some ex)
  let ?s = "\<lparr>rs_ID = 0, rs_Name = rs_Name ex, rs_RunnerGroupID = g, rs_Labels = toLabels wantNames\<rparr>"
  show ?thesis
  proof (cases "labelNamesMatch u (rs_Labels ex) wantNames")
    case True
    with assms Some show ?thesis by (auto simp: reconcileScaleSet_def)
  next
    case False
    with Some assms(2) have r: "api (UpdateRunnerScaleSet (rs_ID ex) ?s) = Inr ss" "length calls = 1"
      by (auto simp: reconcileScaleSet_def Let_def split: sum.splits)
    with Some faithful_update [OF assms(1) r(1)] show ?thesis by (simp add: match_plain)
  qed
qed

text \<open>
  C32: reconciliation converges. A successful reconcileScaleSet returns a scale set whose
  labels match the wanted ones, keeps the identity and name of an existing one, makes at
  most one API call, and repeating it on its result makes none.
\<close>

theorem reconcile_converges:
  assumes "api_faithful api"
    and "reconcileScaleSet u api name g existing wantNames = (Inr ss, calls)"
  shows "labelNamesMatch u (rs_Labels ss) wantNames \<and> length calls \<le> 1
     \<and> reconcileScaleSet u api name g (Some ss) wantNames = (Inr ss, [])
     \<and> (case existing of None \<Rightarrow> True | Some ex \<Rightarrow> rs_ID ss = rs_ID ex \<and> rs_Name ss = rs_Name ex)"
  using reconcile_labels [OF assms] by (simp add: reconcileScaleSet_def)

definition sample_api :: "api_call \<Rightarrow> scale_set_result" where
  "sample_api c = Inr (case c of CreateRunnerScaleSet s \<Rightarrow> s\<lparr>rs_ID := 7\<rparr>
                       | UpdateRunnerScaleSet i s \<Rightarrow> s\<lparr>rs_ID := i\<rparr>)"

lemma sample_api_faithful: "api_faithful sample_api"
  by (auto simp: api_faithful_def sample_api_def sent_def split: api_call.splits)

theorem reconcile_converges_witness:
  "\<exists>ss calls. reconcileScaleSet id sample_api ''s'' 1 None [''linux'', ''s''] = (Inr ss, calls)
     \<and> labelNamesMatch id (rs_Labels ss) [''linux'', ''s''] \<and> length calls = 1"
proof -
  obtain ss calls where r: "reconcileScaleSet id sample_api ''s'' 1 None [''linux'', ''s''] = (Inr ss, calls)"
    "length calls = 1"
    by (simp add: reconcileScaleSet_def sample_api_def Let_def)
  from reconcile_converges [OF sample_api_faithful r(1)] r show ?thesis by blast
qed

section \<open>Opening the session\<close>

definition sessionRetryBackoff :: "nat \<Rightarrow> duration" where
  "sessionRetryBackoff attempt =
     (let wait = int (attempt * 30) * second in if wait > 5 * minute then 5 * minute else wait)"

text \<open>
  \<open>open attempt\<close> is what GitHub answers the attempt, an error as its text; \<open>cancelled attempt\<close>
  says the context ends during the wait after it. The waits are returned too.
\<close>

function open_loop ::
  "(nat \<Rightarrow> (string, 'm) result) \<Rightarrow> (nat \<Rightarrow> bool) \<Rightarrow> nat \<Rightarrow> (scaleset_error, 'm) result \<times> duration list" where
  "open_loop open_fn cancelled attempt =
     (case open_fn attempt of
        Inr msg \<Rightarrow> (Inr msg, [])
      | Inl err \<Rightarrow>
          if \<not> contains err ''409'' \<or> attempt \<ge> 20 then (Inl (OpeningSession err), [])
          else if cancelled attempt then (Inl Cancelled, [])
          else let (r, ws) = open_loop open_fn cancelled (Suc attempt) in
            (r, sessionRetryBackoff attempt # ws))"
  by pat_completeness auto

termination
  by (relation "measure (\<lambda>(open_fn, cancelled, attempt). 20 - attempt)") auto

declare open_loop.simps [simp del]

definition openSessionWithRetry ::
  "(nat \<Rightarrow> (string, 'm) result) \<Rightarrow> (nat \<Rightarrow> bool) \<Rightarrow> (scaleset_error, 'm) result \<times> duration list" where
  "openSessionWithRetry open_fn cancelled = open_loop open_fn cancelled 1"

text \<open>The attempt \<open>k\<close> succeeds and every attempt before it, from \<open>n\<close>, was retried.\<close>

definition retried :: "(nat \<Rightarrow> (string, 'm) result) \<Rightarrow> (nat \<Rightarrow> bool) \<Rightarrow> nat \<Rightarrow> bool" where
  "retried open_fn cancelled j \<longleftrightarrow>
     (case open_fn j of Inl e \<Rightarrow> contains e ''409'' \<and> \<not> cancelled j | Inr m \<Rightarrow> False)"

lemma open_loop_iff:
  "n \<le> 20 \<Longrightarrow> fst (open_loop open_fn cancelled n) = Inr m \<longleftrightarrow>
     (\<exists>k. n \<le> k \<and> k \<le> 20 \<and> open_fn k = Inr m \<and> (\<forall>j. n \<le> j \<and> j < k \<longrightarrow> retried open_fn cancelled j))"
proof (induction open_fn cancelled n rule: open_loop.induct)
  case (1 open_fn cancelled n)
  let ?Q = "\<lambda>n k. n \<le> k \<and> k \<le> 20 \<and> open_fn k = Inr m \<and> (\<forall>j. n \<le> j \<and> j < k \<longrightarrow> retried open_fn cancelled j)"
  show ?case
  proof (cases "retried open_fn cancelled n")
    case True
    then obtain e where e: "open_fn n = Inl e" "contains e ''409''" "\<not> cancelled n"
      by (auto simp: retried_def split: sum.splits)
    show ?thesis
    proof (cases "n < 20")
      case less: True
      have "fst (open_loop open_fn cancelled n) = fst (open_loop open_fn cancelled (Suc n))"
        using e less by (subst open_loop.simps) (simp add: case_prod_beta)
      moreover have "(\<exists>k. ?Q n k) \<longleftrightarrow> (\<exists>k. ?Q (Suc n) k)"
        using True e by (metis Suc_leD Suc_leI le_neq_implies_less not_less_eq_eq sum.distinct(1))
      ultimately show ?thesis using "1.IH" [OF e(1)] e less by simp
    next
      case False
      with 1(2) have "n = 20" by simp
      with e show ?thesis by (subst open_loop.simps) (auto dest: le_antisym)
    qed
  next
    case False
    have "(\<exists>k. ?Q n k) \<longleftrightarrow> open_fn n = Inr m"
    proof
      assume "\<exists>k. ?Q n k"
      then obtain k where k: "?Q n k" ..
      with False have "\<not> n < k" by auto
      with k show "open_fn n = Inr m" by simp
    next
      assume "open_fn n = Inr m"
      with 1(2) have "?Q n n" by auto
      then show "\<exists>k. ?Q n k" ..
    qed
    moreover have "fst (open_loop open_fn cancelled n) = Inr m \<longleftrightarrow> open_fn n = Inr m"
      using False by (subst open_loop.simps) (auto simp: retried_def split: sum.splits)
    ultimately show ?thesis by simp
  qed
qed

lemma open_loop_waits:
  "n \<le> 20 \<Longrightarrow> length (snd (open_loop open_fn cancelled n)) \<le> 20 - n
     \<and> (\<forall>i < length (snd (open_loop open_fn cancelled n)).
          snd (open_loop open_fn cancelled n) ! i = sessionRetryBackoff (n + i))"
proof (induction open_fn cancelled n rule: open_loop.induct)
  case (1 open_fn cancelled n)
  show ?case
  proof (cases "retried open_fn cancelled n \<and> n < 20")
    case True
    then obtain e where e: "open_fn n = Inl e" "contains e ''409''" "\<not> cancelled n"
      by (auto simp: retried_def split: sum.splits)
    have *: "snd (open_loop open_fn cancelled n) = sessionRetryBackoff n # snd (open_loop open_fn cancelled (Suc n))"
      using e True by (subst open_loop.simps) (simp add: case_prod_beta)
    show ?thesis
      using "1.IH" [OF e(1)] e True unfolding * by (auto simp: nth_Cons split: nat.splits)
  next
    case False
    then have "snd (open_loop open_fn cancelled n) = []"
      by (subst open_loop.simps) (auto simp: retried_def split: sum.splits)
    then show ?thesis by simp
  qed
qed

text \<open>
  C33: opening a session makes at most twenty attempts and waits at most nineteen times,
  30 seconds longer each time up to five minutes; it succeeds exactly when one of the first
  twenty attempts does, every earlier one having failed with a 409 and without cancellation.
\<close>

theorem openSessionWithRetry_spec:
  "(fst (openSessionWithRetry open_fn cancelled) = Inr m \<longleftrightarrow>
      (\<exists>k. 1 \<le> k \<and> k \<le> 20 \<and> open_fn k = Inr m
         \<and> (\<forall>j. 1 \<le> j \<and> j < k \<longrightarrow> retried open_fn cancelled j)))
   \<and> (let ws = snd (openSessionWithRetry open_fn cancelled) in
        length ws \<le> 19
        \<and> (\<forall>i < length ws. ws ! i = min (30 * int (Suc i) * second) (5 * minute)))"
  using open_loop_iff [of 1 open_fn cancelled m] open_loop_waits [of 1 open_fn cancelled]
  by (auto simp: openSessionWithRetry_def Let_def sessionRetryBackoff_def algebra_simps min_def)

definition third_time :: "nat \<Rightarrow> (string, nat) result" where
  "third_time k = (if k < 3 then Inl ''409 Conflict'' else Inr k)"

theorem openSessionWithRetry_spec_witness:
  "fst (openSessionWithRetry third_time (\<lambda>_. False)) = Inr 3"
proof -
  have "retried third_time (\<lambda>_. False) j" if "j < 3" for j
    using that by (simp add: retried_def third_time_def has_prefix_def)
  moreover have "third_time 3 = Inr 3" by (simp add: third_time_def)
  ultimately have "1 \<le> (3::nat) \<and> 3 \<le> (20::nat) \<and> third_time 3 = Inr 3
      \<and> (\<forall>j. 1 \<le> j \<and> j < 3 \<longrightarrow> retried third_time (\<lambda>_. False) j)" by simp
  then show ?thesis
    using conjunct1 [OF openSessionWithRetry_spec [of third_time "\<lambda>_. False" 3]] by blast
qed

section \<open>Bootstrap\<close>

text \<open>
  GitHub and the host, as Bootstrap meets them: the client constructors (an error or none),
  the runner group, the existing scale set, create and update, the host name, the answers to
  the attempts to open a session.
\<close>

record github =
  gh_newClient :: "client_auth \<Rightarrow> string option"
  gh_group :: "string \<Rightarrow> (string, int) result"
  gh_lookup :: "int \<Rightarrow> string \<Rightarrow> (string, RunnerScaleSet option) result"
  gh_api :: "api_call \<Rightarrow> scale_set_result"
  gh_hostname :: "(string, string) result"
  gh_open :: "int \<Rightarrow> string \<Rightarrow> nat \<Rightarrow> (string, string) result"
  gh_cancelled :: "nat \<Rightarrow> bool"

definition buildClient :: "ScaleSet \<Rightarrow> client_auth" where
  "buildClient s =
     (if PAT (opts s) \<noteq> [] then PersonalAccessToken (ConfigureURL (opts s)) (PAT (opts s))
      else GitHubApp (ConfigureURL (opts s)) (AppClientID (opts s)) (AppInstallationID (opts s))
             (AppPrivateKeyPEM (opts s)))"

definition sessionOwner :: "(string, string) result \<Rightarrow> (string, string) result" where
  "sessionOwner hostname =
     (case hostname of Inl e \<Rightarrow> Inl e | Inr h \<Rightarrow> if h = [] then Inr ''incuse'' else Inr h)"

definition Bootstrap :: "(nat \<Rightarrow> nat) \<Rightarrow> github \<Rightarrow> ScaleSet \<Rightarrow> scaleset_error option \<times> ScaleSet" where
  "Bootstrap u g s =
     (case gh_newClient g (buildClient s) of Some e \<Rightarrow> (Some (CreatingClient e), s) | None \<Rightarrow>
      let s1 = s\<lparr>client := Some (buildClient s)\<rparr>; spec = opt_Spec (opts s) in
      case gh_group g (ss_RunnerGroup spec) of Inl e \<Rightarrow> (Some (ResolvingGroup e), s1) | Inr grp \<Rightarrow>
      case gh_lookup g grp (ss_Name spec) of Inl e \<Rightarrow> (Some (LookingUp e), s1) | Inr existing \<Rightarrow>
      case fst (reconcileScaleSet u (gh_api g) (ss_Name spec) grp existing (ss_BaseLabels spec)) of
        Inl e \<Rightarrow> (Some e, s1) | Inr ss \<Rightarrow>
      case sessionOwner (gh_hostname g) of Inl e \<Rightarrow> (Some (DeterminingOwner e), s1) | Inr owner \<Rightarrow>
      case fst (openSessionWithRetry (gh_open g (rs_ID ss) owner) (gh_cancelled g)) of
        Inl e \<Rightarrow> (Some e, s1) | Inr msg \<Rightarrow>
      (None, s1\<lparr>msgClient := Some msg, scaleSetID := rs_ID ss\<rparr>))"

section \<open>The other operations\<close>

text \<open>
  Run: the guard and the listener it installs (the constructor of the listener may fail),
  and what its deferred function does when the listener returns.
\<close>

definition Run_start :: "bool \<Rightarrow> ScaleSet \<Rightarrow> scaleset_error option \<times> ScaleSet" where
  "Run_start listener_ok s =
     (case msgClient s of None \<Rightarrow> (Some NotBootstrapped, s)
      | Some m \<Rightarrow> if \<not> listener_ok then (Some CreatingListener, s)
          else (None, s\<lparr>listener_max := Some (ss_MaxRunners (opt_Spec (opts s)))\<rparr>))"

definition Run_stop :: "ScaleSet \<Rightarrow> ScaleSet" where
  "Run_stop s = s\<lparr>listener_max := None\<rparr>"

definition SetMaxRunners :: "int \<Rightarrow> ScaleSet \<Rightarrow> ScaleSet" where
  "SetMaxRunners n s = (if listener_max s = None then s else s\<lparr>listener_max := Some n\<rparr>)"

definition GenerateJITConfig ::
  "(int \<Rightarrow> string \<Rightarrow> string \<Rightarrow> (string, string \<times> int option) result) \<Rightarrow> string \<Rightarrow> string \<Rightarrow> ScaleSet
     \<Rightarrow> (scaleset_error, string \<times> int option) result" where
  "GenerateJITConfig generate runnerName workFolder s =
     (if client s = None then Inl NotBootstrapped
      else case generate (scaleSetID s) runnerName workFolder of
        Inl e \<Rightarrow> Inl (GeneratingJIT e)
      | Inr v \<Rightarrow> Inr v)"

text \<open>RemoveRunner and Close answer with an error of the code (Inl) or of GitHub (Inr).\<close>

definition ss_RemoveRunner :: "(int \<Rightarrow> string option) \<Rightarrow> int \<Rightarrow> ScaleSet \<Rightarrow> (scaleset_error, string option) result" where
  "ss_RemoveRunner remove_fn runnerID s = (if client s = None then Inl NotBootstrapped else Inr (remove_fn runnerID))"

definition ss_Close :: "string option \<Rightarrow> ScaleSet \<Rightarrow> string option" where
  "ss_Close close_result s = (if msgClient s = None then None else close_result)"

section \<open>What the operations promise\<close>

lemma Bootstrap_success_iff:
  "Bootstrap u g s = (None, s') \<longleftrightarrow>
     (\<exists>grp existing ss owner msg.
        gh_newClient g (buildClient s) = None
        \<and> gh_group g (ss_RunnerGroup (opt_Spec (opts s))) = Inr grp
        \<and> gh_lookup g grp (ss_Name (opt_Spec (opts s))) = Inr existing
        \<and> fst (reconcileScaleSet u (gh_api g) (ss_Name (opt_Spec (opts s))) grp existing
             (ss_BaseLabels (opt_Spec (opts s)))) = Inr ss
        \<and> sessionOwner (gh_hostname g) = Inr owner
        \<and> fst (openSessionWithRetry (gh_open g (rs_ID ss) owner) (gh_cancelled g)) = Inr msg
        \<and> s' = s\<lparr>client := Some (buildClient s), msgClient := Some msg, scaleSetID := rs_ID ss\<rparr>)"
  by (simp add: Bootstrap_def Let_def split: option.split sum.split) auto


lemma Bootstrap_shape_failed: "Bootstrap u g s = (Some e, s') \<Longrightarrow> msgClient s = None \<Longrightarrow> msgClient s' = None"
  by (auto simp: Bootstrap_def Let_def split: option.splits sum.splits)

text \<open>
  C31: a Bootstrap that fails on a scale set without a session opens none and changes no ID,
  so Run refuses to start after it; but if the constructor of the client had succeeded, the
  guard of GenerateJITConfig (which looks at the client, not at the session) does not refuse,
  and the call goes out with the old ID.
\<close>

theorem Bootstrap_failure:
  assumes "Bootstrap u g s = (Some e, s')" "msgClient s = None"
  shows "msgClient s' = None \<and> scaleSetID s' = scaleSetID s \<and> Run_start ok s' = (Some NotBootstrapped, s')
     \<and> (gh_newClient g (buildClient s) = None \<longrightarrow>
          GenerateJITConfig gen n w s' =
            (case gen (scaleSetID s) n w of Inl e \<Rightarrow> Inl (GeneratingJIT e) | Inr v \<Rightarrow> Inr v))"
proof -
  have "s' = s \<or> s' = s\<lparr>client := Some (buildClient s)\<rparr>" "gh_newClient g (buildClient s) = None \<Longrightarrow> s' = s\<lparr>client := Some (buildClient s)\<rparr>"
    using assms(1) by (auto simp: Bootstrap_def Let_def split: option.splits sum.splits)
  with assms(2) show ?thesis by (auto simp: Run_start_def GenerateJITConfig_def)
qed

text \<open>The operations that change a ScaleSet, in any order.\<close>

datatype ss_op = OpBootstrap github | OpRunStart bool | OpRunStop | OpSetMaxRunners int

fun ss_apply :: "(nat \<Rightarrow> nat) \<Rightarrow> ss_op \<Rightarrow> ScaleSet \<Rightarrow> ScaleSet" where
  "ss_apply u (OpBootstrap g) s = snd (Bootstrap u g s)"
| "ss_apply u (OpRunStart ok) s = snd (Run_start ok s)"
| "ss_apply u OpRunStop s = Run_stop s"
| "ss_apply u (OpSetMaxRunners n) s = SetMaxRunners n s"

definition ss_inv :: "Options \<Rightarrow> ScaleSet \<Rightarrow> bool" where
  "ss_inv o1 s \<longleftrightarrow> opts s = o1
     \<and> (client s = None \<or> client s = Some (buildClient s))
     \<and> (msgClient s = None \<longrightarrow> scaleSetID s = 0 \<and> listener_max s = None)
     \<and> (msgClient s \<noteq> None \<longrightarrow> client s \<noteq> None)"

lemma buildClient_opts: "opts s = opts t \<Longrightarrow> buildClient s = buildClient t"
  by (simp add: buildClient_def)

lemma Bootstrap_shapes:
  "snd (Bootstrap u g s) = s \<or> snd (Bootstrap u g s) = s\<lparr>client := Some (buildClient s)\<rparr>
   \<or> (\<exists>msg i. snd (Bootstrap u g s)
        = s\<lparr>client := Some (buildClient s), msgClient := Some msg, scaleSetID := i\<rparr>)"
  by (simp add: Bootstrap_def Let_def split: option.split sum.split) blast

lemma ss_inv_apply: "ss_inv o1 s \<Longrightarrow> ss_inv o1 (ss_apply u a s)"
proof (cases a)
  case (OpBootstrap g)
  assume inv: "ss_inv o1 s"
  show ?thesis
    using Bootstrap_shapes [of u g s] inv by (auto simp: OpBootstrap ss_inv_def buildClient_def)
qed (auto simp: ss_inv_def Run_start_def Run_stop_def SetMaxRunners_def buildClient_def split: option.splits)

text \<open>
  C34: in every sequence of operations on a new ScaleSet, a session exists only with the
  client built from the options, a listener only with a session, and the scale-set ID is
  zero until a session has been opened (as ScaleSetID documents).
\<close>

theorem scaleset_lifecycle:
  assumes "scaleset_New o1 = Inr s0"
  shows "ss_inv o1 (fold (ss_apply u) ops s0)"
proof -
  have "ss_inv o1 s \<Longrightarrow> ss_inv o1 (fold (ss_apply u) ops s)" for s
    by (induction ops arbitrary: s) (auto intro: ss_inv_apply)
  moreover have "ss_inv o1 s0" using assms by (auto simp: scaleset_New_def ss_inv_def split: if_splits)
  ultimately show ?thesis by blast
qed

section \<open>Witnesses\<close>

definition sample_options :: Options where
  "sample_options =
     \<lparr>opt_Spec = \<lparr>ss_Name = ''s'', ss_RunnerGroup = ''Default'', ss_BaseLabels = [''linux'', ''s''],
        ss_MaxRunners = 2,
        ss_Runner = \<lparr>spec_VCPUs = 4, spec_MemoryMB = 8192, spec_DiskGB = 20, spec_Arch = ''amd64''\<rparr>\<rparr>,
      ConfigureURL = ''https://github.com/o'', PAT = ''t'', AppClientID = [], AppPrivateKeyPEM = [],
      AppInstallationID = 0, opt_hasLogger = True, opt_Version = ''dev''\<rparr>"

definition fresh_scale_set :: ScaleSet where
  "fresh_scale_set = \<lparr>opts = sample_options, client = None, msgClient = None, scaleSetID = 0, listener_max = None\<rparr>"

definition sample_github :: "(string, int) result \<Rightarrow> github" where
  "sample_github grp =
     \<lparr>gh_newClient = (\<lambda>_. None), gh_group = (\<lambda>_. grp), gh_lookup = (\<lambda>_ _. Inr None),
      gh_api = sample_api, gh_hostname = Inr ''host'', gh_open = (\<lambda>_ _ _. Inr ''session''),
      gh_cancelled = (\<lambda>_. False)\<rparr>"

lemma sample_scaleset_New: "scaleset_New sample_options = Inr fresh_scale_set"
  by (simp add: scaleset_New_def sample_options_def fresh_scale_set_def)

lemma sample_bootstrap:
  "Bootstrap id (sample_github (Inr 1)) fresh_scale_set =
     (None, fresh_scale_set\<lparr>client := Some (PersonalAccessToken ''https://github.com/o'' ''t''),
        msgClient := Some ''session'', scaleSetID := 7\<rparr>)"
  by (simp add: Bootstrap_def sample_github_def buildClient_def fresh_scale_set_def sample_options_def
      reconcileScaleSet_def sample_api_def sessionOwner_def openSessionWithRetry_def open_loop.simps Let_def)


theorem Bootstrap_failure_witness:
  "\<exists>e s'. Bootstrap id (sample_github (Inl ''403'')) fresh_scale_set = (Some e, s')
     \<and> Run_start True s' = (Some NotBootstrapped, s')
     \<and> GenerateJITConfig (\<lambda>i n w. Inr (n, Some i)) ''r'' ''_work'' s' = Inr (''r'', Some 0)"
proof -
  obtain e s' where b: "Bootstrap id (sample_github (Inl ''403'')) fresh_scale_set = (Some e, s')"
    by (simp add: Bootstrap_def sample_github_def Let_def)
  have m: "msgClient fresh_scale_set = None" and i: "scaleSetID fresh_scale_set = 0"
    and c: "gh_newClient (sample_github (Inl ''403'')) (buildClient fresh_scale_set) = None"
    by (simp_all add: fresh_scale_set_def sample_github_def)
  from Bootstrap_failure [OF b m, of True "\<lambda>i n w. Inr (n, Some i)" "''r''" "''_work''"] i c b
  show ?thesis by auto
qed

theorem scaleset_lifecycle_witness:
  "ss_inv sample_options
     (fold (ss_apply id) [OpBootstrap (sample_github (Inr 1)), OpRunStart True, OpSetMaxRunners 5] fresh_scale_set)"
  by (rule scaleset_lifecycle [OF sample_scaleset_New])

end
