(* ===== verification/Cmd_Incuse.thy ===== *)
theory Cmd_Incuse imports Deployment Preflight Scaleset begin

text \<open>
  cmd/incuse/main.go: the flags, the credentials, and the startup part of run: the Incus
  connection, then for every class the scale set, its bootstrap and the orchestrator. What
  the files, the daemon and GitHub answer is an argument. The errgroup that then runs the
  listeners and orchestrators is the system of the theory Orchestrator, one per class.
\<close>

section \<open>Credentials\<close>

text \<open>A newline, a carriage return or a space, which trimNewlines removes at the end.\<close>

definition trimmable :: "char \<Rightarrow> bool" where
  "trimmable c = (byte c = 10 \<or> byte c = 13 \<or> c = CHR '' '')"

function trimNewlines :: "string \<Rightarrow> string" where
  "trimNewlines b = (if b \<noteq> [] \<and> trimmable (last b) then trimNewlines (butlast b) else b)"
  by pat_completeness auto

termination by (relation "measure length") auto

declare trimNewlines.simps [simp del]

datatype auth_error = ReadPATFile string | ReadPrivateKeyFile string | UnknownAuthMode string

definition readAuthCreds ::
  "(string \<Rightarrow> (string, string) result) \<Rightarrow> AuthConfig \<Rightarrow> (auth_error, string \<times> string) result" where
  "readAuthCreds readFile auth =
     (if Mode auth = AuthModePAT then
        (case readFile (PATFile auth) of
           Inl e \<Rightarrow> Inl (ReadPATFile (PATFile auth)) | Inr b \<Rightarrow> Inr (trimNewlines b, []))
      else if Mode auth = AuthModeApp then
        (case readFile (PrivateKeyFile (App auth)) of
           Inl e \<Rightarrow> Inl (ReadPrivateKeyFile (PrivateKeyFile (App auth))) | Inr b \<Rightarrow> Inr ([], b))
      else Inl (UnknownAuthMode (Mode auth)))"

section \<open>Startup\<close>

definition incus_client_config :: "string \<Rightarrow> Config \<Rightarrow> clientConfig" where
  "incus_client_config version c =
     (let i = Incus c in
      \<lparr>cc_SocketPath = SocketPath i, cc_URL = URL i, cc_CertFile = CertFile i, cc_KeyFile = KeyFile i,
       cc_ServerCertFile = ServerCertFile i, cc_InsecureSkipVerify = InsecureSkipVerify i,
       cc_Project = Project i, cc_UserAgent = ''incuse/'' @ version,
       cc_RequestTimeout = RequestTimeout i, cc_HTTPClient = False\<rparr>)"

definition scaleset_options :: "string \<Rightarrow> Config \<Rightarrow> string \<Rightarrow> string \<Rightarrow> ScaleSetConfig \<Rightarrow> Options" where
  "scaleset_options version c pat appKey spec =
     \<lparr>opt_Spec = spec, ConfigureURL = ConfigURL (GitHub c), PAT = pat,
      AppClientID = ClientID (App (Auth (GitHub c))), AppPrivateKeyPEM = appKey,
      AppInstallationID = InstallationID (App (Auth (GitHub c))), opt_hasLogger = True,
      opt_Version = version\<rparr>"

record runtimeSet =
  rt_scaleSet :: ScaleSet
  rt_orchestrator :: "(orch \<times> shared) option"

datatype run_error =
    IncusConnectFailed client_error
  | ReadAuthFailed auth_error
  | ScaleSetNewFailed string scaleset_error
  | BootstrapFailed string scaleset_error
  | OrchestratorNewFailed string new_error

text \<open>
  The world a start meets: the files, the upstream connection, GitHub as each class meets it,
  the names of the instances on the host, the version string.
\<close>

record world =
  w_readFile :: "string \<Rightarrow> (string, string) result"
  w_connect :: "dial_target \<Rightarrow> string option"
  w_github :: "string \<Rightarrow> github"
  w_old :: "string set"
  w_version :: string

text \<open>
  The loop over the classes; \<open>sets\<close> is what the deferred function will close. Channels are
  numbered as they are made: the two limiters of the process are 0 and 1, and a class that
  was given none would get two of its own.
\<close>

fun start_sets ::
  "(nat \<Rightarrow> nat) \<Rightarrow> world \<Rightarrow> Config \<Rightarrow> string \<Rightarrow> string \<Rightarrow> Limiter \<Rightarrow> Limiter \<Rightarrow> ScaleSetConfig list
     \<Rightarrow> runtimeSet list \<Rightarrow> run_error option \<times> runtimeSet list" where
  "start_sets u w c pat appKey ml ll [] sets = (None, sets)"
| "start_sets u w c pat appKey ml ll (spec # specs) sets =
     (case scaleset_New (scaleset_options (w_version w) c pat appKey spec) of
        Inl e \<Rightarrow> (Some (ScaleSetNewFailed (ss_Name spec) e), sets)
      | Inr ss \<Rightarrow>
          (case Bootstrap u (w_github w (ss_Name spec)) ss of
             (Some e, ss') \<Rightarrow> (Some (BootstrapFailed (ss_Name spec) e), sets)
           | (None, ss') \<Rightarrow>
               (case New u (2 * Suc (length sets)) (scaleSetID ss') (w_old w) (class_config c ml ll spec) of
                  Inl e \<Rightarrow> (Some (OrchestratorNewFailed (ss_Name spec) e),
                            sets @ [\<lparr>rt_scaleSet = ss', rt_orchestrator = None\<rparr>])
                | Inr o1 \<Rightarrow> start_sets u w c pat appKey ml ll specs
                            (sets @ [\<lparr>rt_scaleSet = ss', rt_orchestrator = Some o1\<rparr>]))))"

definition run_startup :: "(nat \<Rightarrow> nat) \<Rightarrow> world \<Rightarrow> Config \<Rightarrow> run_error option \<times> runtimeSet list" where
  "run_startup u w c =
     (case Connect (w_readFile w) (w_connect w) (incus_client_config (w_version w) c) of
        Inl e \<Rightarrow> (Some (IncusConnectFailed e), [])
      | Inr conn \<Rightarrow>
          (case readAuthCreds (w_readFile w) (Auth (GitHub c)) of
             Inl e \<Rightarrow> (Some (ReadAuthFailed e), [])
           | Inr (pat, appKey) \<Rightarrow>
               start_sets u w c pat appKey
                 (the (NewLimiter 0 (MaxParallelMints (RunnerCfg c))))
                 (the (NewLimiter 1 (MaxParallelLaunches (RunnerCfg c))))
                 (ScaleSetSpecs u c) []))"

section \<open>main\<close>

text \<open>
  main with its flags; \<open>run_result\<close> is what run returns for a configuration, \<open>None\<close> for nil
  and context.Canceled. The value is the exit status.
\<close>

definition main_exit ::
  "bool \<Rightarrow> bool \<Rightarrow> ('e load_error, Config) result \<Rightarrow> (Config \<Rightarrow> preflight_error list option)
     \<Rightarrow> (Config \<Rightarrow> run_error option) \<Rightarrow> nat" where
  "main_exit showVersion validate loaded preflight run_result =
     (if showVersion then 0
      else case loaded of Inl e \<Rightarrow> 1 | Inr cfg \<Rightarrow>
      if preflight cfg \<noteq> None then 1
      else if validate then 0
      else case run_result cfg of None \<Rightarrow> 0 | Some e \<Rightarrow> 1)"

section \<open>What startup promises\<close>

lemma trim_step: "b \<noteq> [] \<and> trimmable (last b) \<Longrightarrow> trimNewlines b = trimNewlines (butlast b)"
  by (subst trimNewlines.simps) simp

lemma trim_stop: "\<not> (b \<noteq> [] \<and> trimmable (last b)) \<Longrightarrow> trimNewlines b = b"
  by (subst trimNewlines.simps) auto

lemma trimNewlines_split: "\<exists>t. b = trimNewlines b @ t \<and> list_all trimmable t"
proof (induction b rule: trimNewlines.induct)
  case (1 b)
  show ?case
  proof (cases "b \<noteq> [] \<and> trimmable (last b)")
    case True
    with 1 obtain t where t: "butlast b = trimNewlines (butlast b) @ t" "list_all trimmable t" by blast
    have "b = butlast b @ [last b]" using True by simp
    also have "\<dots> = trimNewlines b @ (t @ [last b])"
      unfolding trim_step [OF True] append_assoc [symmetric] t(1) [symmetric] ..
    finally show ?thesis using t(2) True by (intro exI [of _ "t @ [last b]"]) simp
  qed (simp add: trim_stop)
qed

lemma trimNewlines_last: "trimNewlines b = [] \<or> \<not> trimmable (last (trimNewlines b))"
proof (induction b rule: trimNewlines.induct)
  case (1 b)
  then show ?case by (cases "b \<noteq> [] \<and> trimmable (last b)") (auto simp: trim_step trim_stop)
qed

text \<open>
  TrimNewlines removes exactly the trailing newlines, carriage returns and spaces: the
  result is the one prefix of the file that is followed by such characters only and does not
  end in one.
\<close>

theorem trimNewlines_spec:
  "trimNewlines b = p \<longleftrightarrow>
     (\<exists>t. b = p @ t \<and> list_all trimmable t) \<and> (p = [] \<or> \<not> trimmable (last p))"
proof
  assume "trimNewlines b = p"
  then show "(\<exists>t. b = p @ t \<and> list_all trimmable t) \<and> (p = [] \<or> \<not> trimmable (last p))"
    using trimNewlines_split trimNewlines_last by blast
next
  assume "(\<exists>t. b = p @ t \<and> list_all trimmable t) \<and> (p = [] \<or> \<not> trimmable (last p))"
  then obtain t where b: "b = p @ t" "list_all trimmable t" "p = [] \<or> \<not> trimmable (last p)" by blast
  have "list_all trimmable t \<Longrightarrow> trimNewlines (p @ t) = p" for t
  proof (induction t rule: rev_induct)
    case (snoc c t)
    then show ?case by (simp add: trim_step butlast_append)
  qed (use b(3) in \<open>auto simp: trim_stop\<close>)
  with b(1,2) show "trimNewlines b = p" by simp
qed

text \<open>How one class of the loop ends up when nothing fails.\<close>

definition started ::
  "(nat \<Rightarrow> nat) \<Rightarrow> world \<Rightarrow> Config \<Rightarrow> string \<Rightarrow> string \<Rightarrow> Limiter \<Rightarrow> Limiter \<Rightarrow> ScaleSetConfig \<Rightarrow> runtimeSet \<Rightarrow> bool" where
  "started u w c pat appKey ml ll spec r \<longleftrightarrow>
     (\<exists>ss. scaleset_New (scaleset_options (w_version w) c pat appKey spec) = Inr ss
        \<and> Bootstrap u (w_github w (ss_Name spec)) ss = (None, rt_scaleSet r))
     \<and> (\<exists>p addr. rt_orchestrator r = Some p
        \<and> New u addr (scaleSetID (rt_scaleSet r)) (w_old w) (class_config c ml ll spec) = Inr p)"

lemma start_sets_None:
  "start_sets u w c pat appKey ml ll specs sets = (None, sets') \<Longrightarrow>
     \<exists>new. sets' = sets @ new \<and> list_all2 (started u w c pat appKey ml ll) specs new"
proof (induction specs arbitrary: sets)
  case (Cons spec specs)
  from Cons.prems obtain ss ss' p where *:
    "scaleset_New (scaleset_options (w_version w) c pat appKey spec) = Inr ss"
    "Bootstrap u (w_github w (ss_Name spec)) ss = (None, ss')"
    "New u (2 * Suc (length sets)) (scaleSetID ss') (w_old w) (class_config c ml ll spec) = Inr p"
    "start_sets u w c pat appKey ml ll specs (sets @ [\<lparr>rt_scaleSet = ss', rt_orchestrator = Some p\<rparr>]) = (None, sets')"
    by (auto split: sum.splits prod.splits option.splits)
  from Cons.IH [OF *(4)] obtain new where
    "sets' = (sets @ [\<lparr>rt_scaleSet = ss', rt_orchestrator = Some p\<rparr>]) @ new"
    "list_all2 (started u w c pat appKey ml ll) specs new" by blast
  moreover have "started u w c pat appKey ml ll spec \<lparr>rt_scaleSet = ss', rt_orchestrator = Some p\<rparr>"
    using * by (auto simp: started_def)
  ultimately show ?case
    by (intro exI [of _ "\<lparr>rt_scaleSet = ss', rt_orchestrator = Some p\<rparr> # new"]) simp
qed simp

lemma start_sets_Some:
  "start_sets u w c pat appKey ml ll specs sets = (Some e, sets') \<Longrightarrow>
     \<exists>spec \<in> set specs.
       (\<exists>x. scaleset_New (scaleset_options (w_version w) c pat appKey spec) = Inl x
          \<and> e = ScaleSetNewFailed (ss_Name spec) x)
       \<or> (\<exists>x. e = BootstrapFailed (ss_Name spec) x)
       \<or> (\<exists>x i addr. New u addr i (w_old w) (class_config c ml ll spec) = Inl x \<and> e = OrchestratorNewFailed (ss_Name spec) x)"
proof (induction specs arbitrary: sets)
  case (Cons spec specs)
  then show ?case by (auto split: sum.splits prod.splits option.splits)
qed simp

lemma new_shares_limiters:
  "New u addr i old (class_config c ml ll spec) = Inr (o1, s) \<Longrightarrow>
     mintLimiter s = ml \<and> launchLimiter s = ll \<and> o_scaleSetID o1 = i \<and> o_spec o1 = spec
     \<and> o_incusCfg o1 = Incus c \<and> o_runnerCfg o1 = RunnerCfg c"
  by (auto simp: New_def Let_def class_config_def init_shared_def split: option.splits)

lemma started_facts:
  assumes "started u w c pat appKey ml ll spec r"
  shows "opt_Spec (opts (rt_scaleSet r)) = spec \<and> msgClient (rt_scaleSet r) \<noteq> None
     \<and> (\<exists>o1 s. rt_orchestrator r = Some (o1, s) \<and> o_scaleSetID o1 = scaleSetID (rt_scaleSet r)
          \<and> o_spec o1 = spec \<and> mintLimiter s = ml \<and> launchLimiter s = ll)"
proof -
  obtain ss o1 s addr where *: "scaleset_New (scaleset_options (w_version w) c pat appKey spec) = Inr ss"
    "Bootstrap u (w_github w (ss_Name spec)) ss = (None, rt_scaleSet r)"
    "rt_orchestrator r = Some (o1, s)"
    "New u addr (scaleSetID (rt_scaleSet r)) (w_old w) (class_config c ml ll spec) = Inr (o1, s)"
    using assms by (auto simp: started_def)
  have "opts ss = scaleset_options (w_version w) c pat appKey spec"
    using *(1) by (auto simp: scaleset_New_def split: if_splits)
  moreover have "opts (rt_scaleSet r) = opts ss" "msgClient (rt_scaleSet r) \<noteq> None"
    using *(2) unfolding Bootstrap_success_iff by auto
  ultimately show ?thesis
    using *(3) new_shares_limiters [OF *(4)] by (simp add: scaleset_options_def)
qed

text \<open>
  C26: when startup succeeds on a valid configuration there is one scale set and one
  orchestrator per class, in order and with pairwise different names; every scale set has
  an open session, every orchestrator works for the ID of its own scale set, and all of them
  hold the same two limiters: there is one channel for the mints and another for the
  launches, which every class has, with the configured numbers of permits, all free.
\<close>

theorem startup_success:
  assumes "valid_config u url_parse c" "run_startup u w c = (None, sets)"
  shows "map (\<lambda>r. opt_Spec (opts (rt_scaleSet r))) sets = ScaleSetSpecs u c
     \<and> distinct (map (\<lambda>r. ss_Name (opt_Spec (opts (rt_scaleSet r)))) sets)
     \<and> (\<exists>mints launches. mints \<noteq> launches
          \<and> (\<forall>r \<in> set sets. msgClient (rt_scaleSet r) \<noteq> None
               \<and> (\<exists>o1 s. rt_orchestrator r = Some (o1, s) \<and> o_scaleSetID o1 = scaleSetID (rt_scaleSet r)
                    \<and> mintLimiter s = \<lparr>chan = mints, capacity = nat (MaxParallelMints (RunnerCfg c)), inUse = 0\<rparr>
                    \<and> launchLimiter s = \<lparr>chan = launches, capacity = nat (MaxParallelLaunches (RunnerCfg c)), inUse = 0\<rparr>)))"
proof -
  have pos: "0 < MaxParallelMints (RunnerCfg c)" "0 < MaxParallelLaunches (RunnerCfg c)"
    using assms(1) by (simp_all add: valid_config_def runner_ok_def)
  let ?ml = "\<lparr>chan = 0, capacity = nat (MaxParallelMints (RunnerCfg c)), inUse = 0\<rparr>"
  let ?ll = "\<lparr>chan = 1, capacity = nat (MaxParallelLaunches (RunnerCfg c)), inUse = 0\<rparr>"
  obtain pat key where "start_sets u w c pat key ?ml ?ll (ScaleSetSpecs u c) [] = (None, sets)"
    using assms(2) pos by (auto simp: run_startup_def NewLimiter_def split: sum.splits)
  then have all: "list_all2 (started u w c pat key ?ml ?ll) (ScaleSetSpecs u c) sets"
    using start_sets_None by fastforce
  have specs: "map (\<lambda>r. opt_Spec (opts (rt_scaleSet r))) sets = ScaleSetSpecs u c"
    using all by (induction rule: list_all2_induct) (auto dest: started_facts)
  moreover have "distinct (map ss_Name (ScaleSetSpecs u c))"
    using assms(1) by (simp add: valid_config_def classes_ok_def ScaleSetSpecs_def Let_def comp_def)
  then have "distinct (map (\<lambda>r. ss_Name (opt_Spec (opts (rt_scaleSet r)))) sets)"
    unfolding specs [symmetric] by (simp add: comp_def)
  moreover have "\<exists>spec. started u w c pat key ?ml ?ll spec r" if "r \<in> set sets" for r
    using list_all2_nthD2 [OF all] that by (metis in_set_conv_nth)
  then have "\<forall>r \<in> set sets. msgClient (rt_scaleSet r) \<noteq> None
      \<and> (\<exists>o1 s. rt_orchestrator r = Some (o1, s) \<and> o_scaleSetID o1 = scaleSetID (rt_scaleSet r)
           \<and> mintLimiter s = ?ml \<and> launchLimiter s = ?ll)"
    using started_facts by blast
  ultimately show ?thesis by (intro conjI exI [of _ 0] exI [of _ 1]) simp_all
qed

lemma scaleset_New_accepts:
  "ss_Name spec \<noteq> [] \<Longrightarrow> ss_RunnerGroup spec \<noteq> [] \<Longrightarrow> ss_BaseLabels spec \<noteq> [] \<Longrightarrow> ConfigURL (GitHub c) \<noteq> [] \<Longrightarrow>
     pat \<noteq> [] \<or> appKey \<noteq> [] \<and> ClientID (App (Auth (GitHub c))) \<noteq> [] \<and> InstallationID (App (Auth (GitHub c))) \<noteq> 0 \<Longrightarrow>
     is_ok (scaleset_New (scaleset_options v c pat appKey spec))"
  by (auto simp: scaleset_New_def scaleset_options_def)

lemma class_labels_not_Nil: "n \<noteq> [] \<Longrightarrow> ScaleSetLabels u base n \<noteq> []"
  using first_spellings_cover [of u "base @ [n]"] by (auto simp: ScaleSetLabels_first)

lemma creds_cases:
  assumes "github_ok url_parse (GitHub c)" "readAuthCreds rf (Auth (GitHub c)) = Inr (pat, appKey)" "pat \<noteq> [] \<or> appKey \<noteq> []"
  shows "pat \<noteq> [] \<or> appKey \<noteq> [] \<and> ClientID (App (Auth (GitHub c))) \<noteq> [] \<and> InstallationID (App (Auth (GitHub c))) \<noteq> 0"
  using assms by (auto simp: readAuthCreds_def github_ok_def config_consts split: if_splits sum.splits)


text \<open>
  \<open>incuse -validate\<close> exits with status 0 exactly when the file can be read and decoded,
  the configuration with its defaults is valid, and the files it names are private; and
  without the flag nothing is started unless that holds.
\<close>

theorem validate_flag_exit:
  "(main_exit False True (Load u url_parse decode readFile path) (\<lambda>c. run_preflight stat (Some c)) run_result = 0 \<longleftrightarrow>
      (\<exists>raw c. readFile path = Inr raw \<and> decode raw = Inr c \<and> valid_config u url_parse (applyDefaults c)
         \<and> run_preflight stat (Some (applyDefaults c)) = None))
   \<and> (main_exit False False (Load u url_parse decode readFile path) (\<lambda>c. run_preflight stat (Some c)) run_result = 0 \<longleftrightarrow>
      main_exit False True (Load u url_parse decode readFile path) (\<lambda>c. run_preflight stat (Some c)) run_result = 0
      \<and> (\<exists>c. Load u url_parse decode readFile path = Inr c \<and> run_result c = None))"
  by (auto simp: main_exit_def Load_def Parse_def Let_def Validate_iff [symmetric] split: sum.splits option.splits)

section \<open>Witnesses\<close>

theorem trimNewlines_spec_witness: "trimNewlines (''ghp_x'' @ [char_of (13 :: nat), char_of (10 :: nat)]) = ''ghp_x''"
proof -
  have "list_all trimmable [char_of (13 :: nat), char_of (10 :: nat)]" by (simp add: trimmable_def byte_def)
  moreover have "\<not> trimmable (CHR ''x'')" by (simp add: trimmable_def byte_def)
  ultimately show ?thesis
    by (intro trimNewlines_spec [THEN iffD2]) (auto intro: exI [of _ "[char_of (13 :: nat), char_of (10 :: nat)]"])
qed

definition sample_world :: "(string, int) result \<Rightarrow> world" where
  "sample_world grp =
     \<lparr>w_readFile = (\<lambda>_. Inr ''token''), w_connect = (\<lambda>_. None), w_github = (\<lambda>_. sample_github grp),
      w_old = {}, w_version = ''dev''\<rparr>"

lemma trim_token: "trimNewlines ''token'' = ''token''"
  by (simp add: trim_stop trimmable_def byte_def)

lemma sample_creds: "readAuthCreds (w_readFile (sample_world grp)) (Auth (GitHub sample_config)) = Inr (''token'', [])"
  by (simp add: readAuthCreds_def sample_world_def sample_config_def minimal_config_def applyDefaults_def
      config_consts trim_token)

lemma sample_connect: "\<exists>r. Connect (w_readFile (sample_world grp)) (w_connect (sample_world grp)) (incus_client_config v sample_config) = Inr r"
  by (simp add: Connect_def dial_def incus_client_config_def sample_world_def sample_config_def minimal_config_def
      applyDefaults_def defaults_incus_def Let_def)

lemma sample_specs: "ScaleSetSpecs id sample_config = [sample_class_spec]"
  by (simp add: sample_class_spec_def ScaleSetSpecs_def sample_classes)

lemma sample_New_ok: "\<exists>ss. scaleset_New (scaleset_options v sample_config ''token'' [] sample_class_spec) = Inr ss"
proof -
  have "ss_Name sample_class_spec \<noteq> []" "ss_RunnerGroup sample_class_spec \<noteq> []"
    "ss_BaseLabels sample_class_spec \<noteq> []" by code_simp+
  moreover have "ConfigURL (GitHub sample_config) \<noteq> []"
    by (simp add: sample_config_def minimal_config_def applyDefaults_def)
  ultimately have "is_ok (scaleset_New (scaleset_options v sample_config ''token'' [] sample_class_spec))"
    by (intro scaleset_New_accepts) simp_all
  then show ?thesis by (auto simp: is_ok_def split: sum.splits)
qed

lemma sample_boot: "\<exists>s'. Bootstrap u (sample_github (Inr 1)) s = (None, s')"
  by (simp add: Bootstrap_def sample_github_def Let_def reconcileScaleSet_def sample_api_def sessionOwner_def
      openSessionWithRetry_def open_loop.simps)

lemma sample_orch_ok: "\<exists>p. New u addr i old (class_config sample_config ml ll sample_class_spec) = Inr p"
proof -
  have "check_new (class_config sample_config ml ll sample_class_spec) = None"
    by (rule class_accepted [OF sample_config_valid sample_config_defaults sample_class_spec_in])
      (simp add: sample_classes sample_class_def)
  then show ?thesis by (simp add: New_def Let_def)
qed

lemma sample_startup: "\<exists>sets. run_startup id (sample_world (Inr 1)) sample_config = (None, sets)"
proof -
  obtain r where "Connect (w_readFile (sample_world (Inr 1))) (w_connect (sample_world (Inr 1)))
      (incus_client_config ''dev'' sample_config) = Inr r" using sample_connect by blast
  moreover obtain ss where ss: "scaleset_New (scaleset_options ''dev'' sample_config ''token'' [] sample_class_spec) = Inr ss"
    using sample_New_ok by blast
  moreover obtain s' where "Bootstrap id (sample_github (Inr 1)) ss = (None, s')" using sample_boot by blast
  moreover have "w_version (sample_world (Inr 1)) = ''dev''" "w_github (sample_world (Inr 1)) n = sample_github (Inr 1)"
    "w_old (sample_world (Inr 1)) = {}" for n by (simp_all add: sample_world_def)
  moreover obtain p where "New id 2 (scaleSetID s') {} (class_config sample_config
      (the (NewLimiter 0 (MaxParallelMints (RunnerCfg sample_config))))
      (the (NewLimiter 1 (MaxParallelLaunches (RunnerCfg sample_config)))) sample_class_spec) = Inr p"
    using sample_orch_ok by blast
  ultimately show ?thesis by (simp add: run_startup_def sample_creds sample_specs)
qed

theorem startup_success_witness:
  "\<exists>sets. run_startup id (sample_world (Inr 1)) sample_config = (None, sets) \<and> length sets = 1
     \<and> (\<exists>r. sets = [r] \<and> msgClient (rt_scaleSet r) \<noteq> None)"
proof -
  obtain sets where st: "run_startup id (sample_world (Inr 1)) sample_config = (None, sets)"
    using sample_startup by blast
  note s = startup_success [OF sample_config_valid st]
  then have "length sets = 1" using sample_specs by (metis One_nat_def length_map list.size(3,4) add_0)
  then obtain r where "sets = [r]" by (auto simp: length_Suc_conv)
  with s st show ?thesis by auto
qed

lemma sample_startup_fails:
  "\<exists>n x. run_startup id (sample_world (Inl ''403'')) sample_config = (Some (BootstrapFailed n x), [])"
proof -
  obtain r where "Connect (w_readFile (sample_world (Inl ''403''))) (w_connect (sample_world (Inl ''403'')))
      (incus_client_config ''dev'' sample_config) = Inr r" using sample_connect by blast
  moreover obtain ss where "scaleset_New (scaleset_options ''dev'' sample_config ''token'' [] sample_class_spec) = Inr ss"
    using sample_New_ok by blast
  moreover obtain e s' where "Bootstrap id (sample_github (Inl ''403'')) ss = (Some e, s')"
    by (simp add: Bootstrap_def sample_github_def Let_def)
  moreover have "w_version (sample_world (Inl ''403'')) = ''dev''"
    "w_github (sample_world (Inl ''403'')) n = sample_github (Inl ''403'')" for n by (simp_all add: sample_world_def)
  ultimately show ?thesis by (simp add: run_startup_def sample_creds sample_specs)
qed


end
