(* ===== verification/Process.thy ===== *)
theory Process imports Fleet Cmd_Incuse begin

text \<open>
  The second half of run in cmd/incuse/main.go: the classes of a successful start become the
  members of a fleet, each with the listener's calls and the goroutine of its Run, all with
  the context of the errgroup.
\<close>

definition start_members :: "runtimeSet list \<Rightarrow> (orch \<times> shared) list" where
  "start_members sets = map (\<lambda>r. the (rt_orchestrator r)) sets"

definition start_fleet :: "runtimeSet list \<Rightarrow> fleet" where
  "start_fleet sets = init_fleet (start_members sets)"

text \<open>The fleet of a successful start: two fresh limiters, and one fresh member per class.\<close>

lemma started_member:
  assumes "started u w c pat key ml ll spec r" "inUse ml = 0" "inUse ll = 0"
  shows "\<exists>old. snd (the (rt_orchestrator r)) = init_shared ml ll old"
    and "o_spec (fst (the (rt_orchestrator r))) = spec"
    and "0 < ss_MaxRunners spec"
proof -
  obtain o1 s addr where r: "rt_orchestrator r = Some (o1, s)"
    "New u addr (scaleSetID (rt_scaleSet r)) (w_old w) (class_config c ml ll spec) = Inr (o1, s)"
    using assms(1) by (auto simp: started_def)
  have chk: "check_new (class_config c ml ll spec) = None"
    using r(2) by (cases "check_new (class_config c ml ll spec)") (simp_all add: New_def)
  then show "0 < ss_MaxRunners spec" by (auto simp: check_new_None_iff class_config_def)
  show "\<exists>old. snd (the (rt_orchestrator r)) = init_shared ml ll old"
    "o_spec (fst (the (rt_orchestrator r))) = spec"
    using r chk by (auto simp: New_def Let_def class_config_def)
qed

definition mint_limiter :: "Config \<Rightarrow> Limiter" where
  "mint_limiter c = \<lparr>chan = 0, capacity = nat (MaxParallelMints (RunnerCfg c)), inUse = 0\<rparr>"

definition launch_limiter :: "Config \<Rightarrow> Limiter" where
  "launch_limiter c = \<lparr>chan = 1, capacity = nat (MaxParallelLaunches (RunnerCfg c)), inUse = 0\<rparr>"

lemma started_fleet:
  assumes "valid_config u url_parse c" "run_startup u w c = (None, sets)"
  shows "0 < capacity (mint_limiter c)" "0 < capacity (launch_limiter c)"
    and "fresh_members (mint_limiter c) (launch_limiter c) (start_members sets)"
    and "length (start_members sets) = length sets" "length sets = length (Classes (ScaleSets c))" "sets \<noteq> []"
    and "i < length sets \<Longrightarrow>
      ss_MaxRunners (o_spec (fst (start_members sets ! i))) = MaxRunners (Classes (ScaleSets c) ! i)"
    and "list_all (\<lambda>m. 0 < ss_MaxRunners (o_spec (fst m))) (start_members sets)"
proof -
  have pos: "0 < MaxParallelMints (RunnerCfg c)" "0 < MaxParallelLaunches (RunnerCfg c)"
    using assms(1) by (simp_all add: valid_config_def runner_ok_def)
  then show "0 < capacity (mint_limiter c)" "0 < capacity (launch_limiter c)"
    by (simp_all add: mint_limiter_def launch_limiter_def)
  let ?ms = "start_members sets" and ?cs = "Classes (ScaleSets c)"
  obtain pat key where "start_sets u w c pat key (mint_limiter c) (launch_limiter c) (ScaleSetSpecs u c) [] = (None, sets)"
    using assms(2) pos by (auto simp: run_startup_def NewLimiter_def mint_limiter_def launch_limiter_def split: sum.splits)
  then have all: "list_all2 (started u w c pat key (mint_limiter c) (launch_limiter c)) (ScaleSetSpecs u c) sets"
    using start_sets_None by fastforce
  show len: "length ?ms = length sets" "length sets = length ?cs"
    using list_all2_lengthD [OF all] by (simp_all add: ScaleSetSpecs_def Let_def start_members_def)
  then show "sets \<noteq> []" using assms(1) by (auto simp: valid_config_def classes_ok_def)
  have st: "started u w c pat key (mint_limiter c) (launch_limiter c) (ScaleSetSpecs u c ! i) (sets ! i)"
    if "i < length sets" for i
    using list_all2_nthD2 [OF all] that by simp
  have m: "?ms ! i = the (rt_orchestrator (sets ! i))" if "i < length sets" for i
    using that by (simp add: start_members_def)
  have at: "\<exists>old. snd (?ms ! i) = init_shared (mint_limiter c) (launch_limiter c) old"
    "ss_MaxRunners (o_spec (fst (?ms ! i))) = MaxRunners (?cs ! i)"
    "0 < ss_MaxRunners (o_spec (fst (?ms ! i)))" if i: "i < length sets" for i
    using started_member(1,2) [OF st [OF i]] started_member(3) [OF st [OF i]] i len
    by (simp_all add: m mint_limiter_def launch_limiter_def ScaleSetSpecs_def Let_def)
  then show "i < length sets \<Longrightarrow> ss_MaxRunners (o_spec (fst (?ms ! i))) = MaxRunners (?cs ! i)" by blast
  show "fresh_members (mint_limiter c) (launch_limiter c) ?ms"
    using at(1) len(1) by (simp add: fresh_members_def list_all_length mint_limiter_def launch_limiter_def)
  show "list_all (\<lambda>m. 0 < ss_MaxRunners (o_spec (fst m))) ?ms"
    using at(3) len(1) by (simp add: list_all_length)
qed

text \<open>
  C8: the process keeps its limits. After a start on a valid configuration, in every
  interleaving of the classes, their listeners, reapers and spawns, each class has at most
  its MaxRunners runners tracked or reserved, and all classes together hold at most
  MaxParallelMints mint permits and MaxParallelLaunches launch permits. Each class works on
  the channels its own orchestrator was given by the start; that these are the same for all
  is part of what is proved.
\<close>

theorem process_within_limits:
  assumes "valid_config u url_parse c" "run_startup u w c = (None, sets)"
    and "fleet_reachable any_env (start_fleet sets) f"
  shows "length (f_members f) = length (Classes (ScaleSets c))
     \<and> (\<forall>i < length (Classes (ScaleSets c)).
          int (tracker_size (s_tracker (shared (m_sys (f_members f ! i)))))
            + spawnInflight (shared (m_sys (f_members f ! i))) \<le> MaxRunners (Classes (ScaleSets c) ! i))
     \<and> int (sum_list (map m_mint (f_members f))) \<le> MaxParallelMints (RunnerCfg c)
     \<and> int (sum_list (map m_launch (f_members f))) \<le> MaxParallelLaunches (RunnerCfg c)"
proof -
  note st = started_fleet [OF assms(1,2)]
  have r: "fleet_reachable any_env (init_fleet (start_members sets)) f"
    using assms(3) by (simp add: start_fleet_def)
  have inv: "fleet_inv any_env (mint_limiter c) (launch_limiter c) (start_members sets) f"
    by (rule fleet_inv_reachable [OF open_any st(3) r])
  note bounds = fleet_bounds [OF open_any st(3) r st(8), unfolded st(4)]
  have "0 < length sets" using st(6) by simp
  then have sums: "sum_list (map m_mint (f_members f)) \<le> nat (MaxParallelMints (RunnerCfg c))"
    "sum_list (map m_launch (f_members f)) \<le> nat (MaxParallelLaunches (RunnerCfg c))"
    using bounds [where i = 0] by (simp_all add: mint_limiter_def launch_limiter_def)
  moreover have "0 \<le> MaxParallelMints (RunnerCfg c)" "0 \<le> MaxParallelLaunches (RunnerCfg c)"
    using assms(1) by (simp_all add: valid_config_def runner_ok_def)
  moreover have "length (f_members f) = length sets" using inv st(4) by (simp add: fleet_inv_def)
  ultimately show ?thesis using bounds st(5,7) by auto
qed

text \<open>The sample configuration, started, and its context cancelled.\<close>

theorem process_within_limits_witness:
  "\<exists>sets f. run_startup id (sample_world (Inr 1)) sample_config = (None, sets)
     \<and> fleet_step CancelAll (start_fleet sets) = Some f
     \<and> length (f_members f) = 1
     \<and> int (sum_list (map m_mint (f_members f))) \<le> MaxParallelMints (RunnerCfg sample_config)"
proof -
  obtain sets where st: "run_startup id (sample_world (Inr 1)) sample_config = (None, sets)"
    using sample_startup by blast
  obtain f where f: "fleet_step CancelAll (start_fleet sets) = Some f" by simp
  have "fleet_reachable any_env (start_fleet sets) f"
    by (rule fleet_next [OF fleet_init _ f]) simp
  from process_within_limits [OF sample_config_valid st this] st f show ?thesis
    by (auto simp: sample_classes)
qed

end
