(* ===== verification/Fleet_Quiescence.thy ===== *)
theory Fleet_Quiescence imports Fleet Orchestrator_Quiescence begin

text \<open>
  Progress and termination of all classes of a process together, once its context is done.
  A class alone comes to rest as long as the others leave it a permit; in the fleet that
  needs no assumption, because a class that holds a permit can always go on.
\<close>

section \<open>Termination\<close>

text \<open>A goroutine of some class is about to take a tick of the reaper.\<close>

definition fleet_tick :: "nat \<Rightarrow> nat \<Rightarrow> reply \<Rightarrow> fleet \<Rightarrow> bool" where
  "fleet_tick i j r f \<longleftrightarrow> takes_tick r (threads (m_sys (f_members f ! i)) ! j)"

text \<open>A step of some goroutine of some class other than a tick.\<close>

definition fleet_goroutine_step :: "(label \<Rightarrow> sys \<Rightarrow> bool) \<Rightarrow> fleet \<Rightarrow> fleet \<Rightarrow> bool" where
  "fleet_goroutine_step A f f' \<longleftrightarrow>
     (\<exists>i j r. \<not> fleet_tick i j r f \<and> allowed A (Member i (Thread j r)) f
        \<and> fleet_step (Member i (Thread j r)) f = Some f')"

text \<open>All goroutines, each with the orchestrator it works for.\<close>

definition member_goroutines :: "member \<Rightarrow> (orch \<times> proc) multiset" where
  "member_goroutines m = image_mset (Pair (m_orch m)) (mset (threads (m_sys m)))"

definition fleet_goroutines :: "fleet \<Rightarrow> (orch \<times> proc) multiset" where
  "fleet_goroutines f = sum_list (map member_goroutines (f_members f))"

definition fleet_next_of :: "((orch \<times> proc) \<times> (orch \<times> proc)) set" where
  "fleet_next_of = same_fst (\<lambda>_. True) (\<lambda>o1. next_of (program o1))"

lemma wf_fleet_next: "wf fleet_next_of"
  unfolding fleet_next_of_def by (rule wf_same_fst) (rule wf_program)

lemma sum_list_nth_split:
  "i < length xs \<Longrightarrow> \<exists>r. sum_list (map g xs) = g (xs ! i) + (r :: 'a multiset)"
proof (induction xs arbitrary: i)
  case (Cons x xs)
  then show ?case
  proof (cases i)
    case (Suc k)
    with Cons obtain r where "sum_list (map g xs) = g (xs ! k) + r" by fastforce
    then show ?thesis using Suc by (intro exI [of _ "g x + r"]) simp
  qed auto
qed simp

lemma fleet_step_decreases:
  assumes "fleet_step (Member i (Thread j r)) f = Some f'" "\<not> fleet_tick i j r f"
  shows "(fleet_goroutines f', fleet_goroutines f) \<in> mult fleet_next_of"
proof -
  let ?m = "f_members f ! i" and ?m' = "f_members f' ! i"
  obtain y where i: "i < length (f_members f)" and f': "f' = after_step f i y"
    and st: "sys_step (m_orch ?m) (Thread j r) (view f ?m) = Some y"
    using assms by (auto split: if_splits simp del: sys_step.simps)
  have v: "threads (view f ?m) = threads (m_sys ?m)" by (simp add: view_def with_limiters_def)
  have "\<not> takes_tick r (threads (view f ?m) ! j)" using assms(2) by (simp add: v fleet_tick_def)
  with st obtain p ts new where ts: "mset (threads (view f ?m)) = add_mset p ts" "mset (threads y) = ts + new"
    and lt: "\<forall>q \<in># new. (q, p) \<in> next_of (program (m_orch ?m))" by (rule thread_step_split)
  let ?g = "image_mset (Pair (m_orch ?m))"
  have old: "member_goroutines ?m = add_mset (m_orch ?m, p) (?g ts)"
    using ts(1) by (simp add: member_goroutines_def v)
  have new: "member_goroutines ?m' = ?g ts + ?g new"
    using ts(2) i by (simp add: member_goroutines_def f' after_step_members)
  have "f_members f' = (f_members f)[i := ?m']" using i by (simp add: f' after_step_def Let_def)
  then have "fleet_goroutines f' + member_goroutines ?m = fleet_goroutines f + member_goroutines ?m'"
    unfolding fleet_goroutines_def by (metis sum_list_update_add [OF i])
  moreover obtain rest where rest: "fleet_goroutines f = member_goroutines ?m + rest"
    using sum_list_nth_split [OF i] unfolding fleet_goroutines_def by blast
  ultimately have "fleet_goroutines f' = (?g ts + rest) + ?g new"
    "fleet_goroutines f = add_mset (m_orch ?m, p) (?g ts + rest)"
    by (simp_all add: old new)
  with lt show ?thesis
    unfolding mult_def by (intro r_into_trancl mult1I) (auto simp: fleet_next_of_def same_fst_def)
qed

lemma wf_fleet_goroutine_step: "wf {(f', f). fleet_goroutine_step A f f'}"
proof (rule wf_subset)
  show "wf (inv_image (mult fleet_next_of) fleet_goroutines)"
    by (intro wf_inv_image wf_mult wf_fleet_next)
  show "{(f', f). fleet_goroutine_step A f f'} \<subseteq> inv_image (mult fleet_next_of) fleet_goroutines"
    by (auto simp: fleet_goroutine_step_def simp del: fleet_step.simps allowed.simps intro: fleet_step_decreases)
qed

section \<open>Progress\<close>

definition fleet_at_rest :: "fleet \<Rightarrow> bool" where
  "fleet_at_rest f \<longleftrightarrow> list_all (\<lambda>m. at_rest (view f m)) (f_members f)
     \<and> list_all (\<lambda>m. inUse (mint_of f m) = 0 \<and> inUse (launch_of f m) = 0) (f_members f)
     \<and> \<not> fleet_down f"

lemma open_suffix: "open_env suffix_env"
proof -
  have "own_label l \<or> suffix_env l y" for l y by (cases l) (simp_all add: suffix_env_def)
  then show ?thesis by (simp add: open_env_def)
qed

lemma class_facts:
  assumes fresh: "fresh_members ml ll ms" and inv: "fleet_inv suffix_env ml ll ms f" and i: "i < length ms"
  shows "reachable (fst (ms ! i)) suffix_env (snd (ms ! i)) (view f (f_members f ! i))"
    and "pool_inv (pool_limit (fst (ms ! i))) (view f (f_members f ! i))" and "shutdown_inv (view f (f_members f ! i))"
    and "\<not> crashed (shared (view f (f_members f ! i)))" and "m_orch (f_members f ! i) = fst (ms ! i)"
    and "list_all safe (threads (view f (f_members f ! i)))"
proof -
  show r: "reachable (fst (ms ! i)) suffix_env (snd (ms ! i)) (view f (f_members f ! i))"
    and "m_orch (f_members f ! i) = fst (ms ! i)" using inv i by (simp_all add: fleet_inv_def)
  show "pool_inv (pool_limit (fst (ms ! i))) (view f (f_members f ! i))" by (rule fresh_pool_inv [OF fresh i r])
  show "shutdown_inv (view f (f_members f ! i))" by (rule shutdown_inv_reachable [OF r])
  obtain old where "snd (ms ! i) = init_shared ml ll old"
    using fresh i by (auto simp: fresh_members_def list_all_length)
  then have "\<not> crashed (snd (ms ! i))" by (simp add: init_shared_def)
  from safe_reachable [OF this r] show "\<not> crashed (shared (view f (f_members f ! i)))"
    "list_all safe (threads (view f (f_members f ! i)))" by blast+
qed

lemma fleet_not_down:
  assumes "fresh_members ml ll ms" "fleet_inv suffix_env ml ll ms f"
  shows "\<not> fleet_down f"
  using class_facts(4) [OF assms] assms(2) by (auto simp: fleet_down_def fleet_inv_def list_ex_length view_limiters)

text \<open>If no class holds a permit, none is in use.\<close>

lemma no_permit_held:
  assumes inv: "fleet_inv A ml ll ms f"
    and held: "\<And>i. i < length ms \<Longrightarrow> othersMint (shared (view f (f_members f ! i))) = inUse (f_store f (chan ml))
      \<and> othersLaunch (shared (view f (f_members f ! i))) = inUse (f_store f (chan ll))"
  shows "inUse (f_store f (chan ml)) = 0" "inUse (f_store f (chan ll)) = 0"
proof -
  have len: "length (f_members f) = length ms"
    and sums: "sum_list (map m_mint (f_members f)) = inUse (f_store f (chan ml))"
      "sum_list (map m_launch (f_members f)) = inUse (f_store f (chan ll))"
    using inv by (simp_all add: fleet_inv_def)
  have "m_mint (f_members f ! i) = 0 \<and> m_launch (f_members f ! i) = 0" if i: "i < length ms" for i
    using held [OF i] member_le [of i "f_members f" m_mint] member_le [of i "f_members f" m_launch] i len sums
    by (simp add: view_limiters fleet_inv_limiters [OF inv i]) linarith
  then have "\<forall>m \<in> set (f_members f). m_mint m = 0 \<and> m_launch m = 0" by (metis in_set_conv_nth len)
  then show "inUse (f_store f (chan ml)) = 0" "inUse (f_store f (chan ll)) = 0"
    unfolding sums [symmetric] by (simp_all add: sum_list_eq_0_iff)
qed

text \<open>When every goroutine of every class has returned, the fleet is at rest.\<close>

lemma fleet_returned:
  assumes fresh: "fresh_members ml ll ms" and inv: "fleet_inv suffix_env ml ll ms f"
    and ret: "\<And>i. i < length ms \<Longrightarrow> list_all returned (threads (view f (f_members f ! i)))"
  shows "fleet_at_rest f"
proof -
  note lim = fleet_inv_limiters(1,2) [OF inv]
  have rest: "at_rest (view f (f_members f ! i))" if i: "i < length ms" for i
    using class_facts [OF fresh inv i] ret [OF i] by (intro returned_at_rest)
  have "inUse (f_store f (chan ml)) = 0" "inUse (f_store f (chan ll)) = 0"
    using no_permit_held [OF inv] rest by (simp_all add: at_rest_def view_limiters lim)
  then show ?thesis
    using rest fleet_not_down [OF fresh inv] inv by (simp add: fleet_at_rest_def list_all_length fleet_inv_def lim)
qed

text \<open>
  Once the context of every class is done, a fleet in which no goroutine has a step other
  than a tick is at rest.
\<close>

lemma fleet_stuck:
  assumes fresh: "fresh_members ml ll ms" and inv: "fleet_inv suffix_env ml ll ms f"
    and cap: "0 < capacity ml" "0 < capacity ll"
    and ctx: "\<And>i. i < length ms \<Longrightarrow> callerDone (shared (m_sys (f_members f ! i)))"
    and none: "\<nexists>f'. fleet_goroutine_step suffix_env f f'"
  shows "fleet_at_rest f"
proof (rule fleet_returned [OF fresh inv])
  let ?v = "\<lambda>i. view f (f_members f ! i)"
  note facts = class_facts [OF fresh inv] and lim = fleet_inv_limiters [OF inv]
  have v: "threads (?v i) = threads (m_sys (f_members f ! i))"
    "callerDone (shared (?v i)) = callerDone (shared (m_sys (f_members f ! i)))" for i
    by (simp_all add: view_def with_limiters_def)
  have stuck: "\<nexists>j a. sys_step (fst (ms ! i)) (Thread j a) (?v i) \<noteq> None" if i: "i < length ms" for i
  proof
    assume "\<exists>j a. sys_step (fst (ms ! i)) (Thread j a) (?v i) \<noteq> None"
    then obtain j a where "\<not> takes_tick a (threads (?v i) ! j)" "suffix_env (Thread j a) (?v i)"
      "sys_step (fst (ms ! i)) (Thread j a) (?v i) \<noteq> None"
      using runs_drawn ctx [OF i] v(2) by metis
    then have "\<exists>f'. fleet_goroutine_step suffix_env f f'"
      unfolding fleet_goroutine_step_def using i inv fleet_not_down [OF fresh inv] facts(5) [OF i]
      by (intro exI [of _ "after_step f i (the (sys_step (fst (ms ! i)) (Thread j a) (?v i)))"]
          exI [of _ i] exI [of _ j] exI [of _ a]) (auto simp: fleet_inv_def fleet_tick_def v simp del: sys_step.simps)
    with none show False by blast
  qed
  note held = all_stuck [OF facts(2,4) stuck]
  have free: "inUse (f_store f (chan ml)) = 0" "inUse (f_store f (chan ll)) = 0"
    by (rule no_permit_held [OF inv]; use held(1,2) in \<open>simp add: view_limiters lim\<close>)+
  fix i
  assume i: "i < length ms"
  have "inUse (mint_of f (f_members f ! i)) = 0" "inUse (launch_of f (f_members f ! i)) = 0"
    "0 < capacity (mint_of f (f_members f ! i))" "0 < capacity (launch_of f (f_members f ! i))"
    using free cap lim [OF i] by (simp_all add: same_limiter_def)
  then show "list_all returned (threads (?v i))"
    using held(3) [OF i i i] by (simp add: view_limiters)
qed

end
