(* ===== verification/Orchestrator_Join.thy ===== *)
theory Orchestrator_Join imports Orchestrator_Shutdown Orchestrator_Panics begin

text \<open>
  What is still running when Run has returned: nothing but, at most, the call of the listener
  that is being handled. The goroutines of the reaper have been joined by wg.Wait, the
  spawns by taskWG.Wait.
\<close>

section \<open>Goroutines that belong to a wait group\<close>

text \<open>\<open>obliged p\<close>: on every path \<open>p\<close> ends with the Done of a wait group.\<close>

primrec obliged :: "proc \<Rightarrow> bool" where
  "obliged (Return v) = False"
| "obliged Again = False"
| "obliged Crash = True"
| "obliged (MintAcquire c k) = (\<forall>x. obliged (k x))"
| "obliged (MintRelease p) = obliged p"
| "obliged (LaunchAcquire c k) = (\<forall>x. obliged (k x))"
| "obliged (LaunchRelease p) = obliged p"
| "obliged (Reserve target k) = (\<forall>x. obliged (k x))"
| "obliged (InflightDec p) = obliged p"
| "obliged (StartSpawn k) = (\<forall>x. obliged (k x))"
| "obliged (TaskDone p) = (returned p \<or> obliged p)"
| "obliged (TasksWait p) = obliged p"
| "obliged (Go c p) = obliged p"
| "obliged (WgDone p) = (returned p \<or> obliged p)"
| "obliged (WgWait p) = obliged p"
| "obliged (BeginShutdown p) = obliged p"
| "obliged (Select k) = (\<forall>x. obliged (k x))"
| "obliged (CtxErr c k) = (\<forall>x. obliged (k x))"
| "obliged (Now k) = (\<forall>x. obliged (k x))"
| "obliged (NameSuffix k) = (\<forall>x. obliged (k x))"
| "obliged (TrackAdd r p) = obliged p"
| "obliged (TrackRemove n p) = obliged p"
| "obliged (TrackGet n k) = (\<forall>x. obliged (k x))"
| "obliged (TrackSize k) = (\<forall>x. obliged (k x))"
| "obliged (TrackNames k) = (\<forall>x. obliged (k x))"
| "obliged (TrackSnapshot k) = (\<forall>x. obliged (k x))"
| "obliged (MarkIdle n t k) = (\<forall>x. obliged (k x))"
| "obliged (MarkBusy n t k) = (\<forall>x. obliged (k x))"
| "obliged (MarkForTermination n k) = (\<forall>x. obliged (k x))"
| "obliged (AskTerminationPending n k) = (\<forall>x. obliged (k x))"
| "obliged (Resolve c a k) = (\<forall>x. obliged (k x))"
| "obliged (GenerateJIT c n w k) = (\<forall>x. obliged (k x))"
| "obliged (RemoveRunner c j k) = (\<forall>x. obliged (k x))"
| "obliged (IncusLaunch c q k) = (\<forall>x. obliged (k x))"
| "obliged (IncusStop c n k) = (\<forall>x. obliged (k x))"
| "obliged (IncusDelete c n k) = (\<forall>x. obliged (k x))"
| "obliged (IncusList c n k) = (\<forall>x. obliged (k x))"
| "obliged (Metric m p) = obliged p"

text \<open>\<open>no_go p\<close>: \<open>p\<close> starts no goroutine of the reaper.\<close>

primrec no_go :: "proc \<Rightarrow> bool" where
  "no_go (Return v) = True"
| "no_go Again = False"
| "no_go Crash = True"
| "no_go (MintAcquire c k) = (\<forall>x. no_go (k x))"
| "no_go (MintRelease p) = no_go p"
| "no_go (LaunchAcquire c k) = (\<forall>x. no_go (k x))"
| "no_go (LaunchRelease p) = no_go p"
| "no_go (Reserve target k) = (\<forall>x. no_go (k x))"
| "no_go (InflightDec p) = no_go p"
| "no_go (StartSpawn k) = (\<forall>x. no_go (k x))"
| "no_go (TaskDone p) = no_go p"
| "no_go (TasksWait p) = no_go p"
| "no_go (Go c p) = False"
| "no_go (WgDone p) = no_go p"
| "no_go (WgWait p) = no_go p"
| "no_go (BeginShutdown p) = no_go p"
| "no_go (Select k) = (\<forall>x. no_go (k x))"
| "no_go (CtxErr c k) = (\<forall>x. no_go (k x))"
| "no_go (Now k) = (\<forall>x. no_go (k x))"
| "no_go (NameSuffix k) = (\<forall>x. no_go (k x))"
| "no_go (TrackAdd r p) = no_go p"
| "no_go (TrackRemove n p) = no_go p"
| "no_go (TrackGet n k) = (\<forall>x. no_go (k x))"
| "no_go (TrackSize k) = (\<forall>x. no_go (k x))"
| "no_go (TrackNames k) = (\<forall>x. no_go (k x))"
| "no_go (TrackSnapshot k) = (\<forall>x. no_go (k x))"
| "no_go (MarkIdle n t k) = (\<forall>x. no_go (k x))"
| "no_go (MarkBusy n t k) = (\<forall>x. no_go (k x))"
| "no_go (MarkForTermination n k) = (\<forall>x. no_go (k x))"
| "no_go (AskTerminationPending n k) = (\<forall>x. no_go (k x))"
| "no_go (Resolve c a k) = (\<forall>x. no_go (k x))"
| "no_go (GenerateJIT c n w k) = (\<forall>x. no_go (k x))"
| "no_go (RemoveRunner c j k) = (\<forall>x. no_go (k x))"
| "no_go (IncusLaunch c q k) = (\<forall>x. no_go (k x))"
| "no_go (IncusStop c n k) = (\<forall>x. no_go (k x))"
| "no_go (IncusDelete c n k) = (\<forall>x. no_go (k x))"
| "no_go (IncusList c n k) = (\<forall>x. no_go (k x))"
| "no_go (Metric m p) = no_go p"

text \<open>
  \<open>joins b p\<close>: what \<open>p\<close> starts for the reaper is in its wait group and does not start more,
  and before \<open>p\<close> returns it waits for the group; \<open>b\<close> says that it has something to wait for.
\<close>

primrec joins :: "bool \<Rightarrow> proc \<Rightarrow> bool" where
  "joins b (Return v) = (\<not> b)"
| "joins b Again = (\<not> b)"
| "joins b Crash = True"
| "joins b (MintAcquire c k) = (\<forall>x. joins b (k x))"
| "joins b (MintRelease p) = joins b p"
| "joins b (LaunchAcquire c k) = (\<forall>x. joins b (k x))"
| "joins b (LaunchRelease p) = joins b p"
| "joins b (Reserve target k) = (\<forall>x. joins b (k x))"
| "joins b (InflightDec p) = joins b p"
| "joins b (StartSpawn k) = (\<forall>x. joins b (k x))"
| "joins b (TaskDone p) = joins b p"
| "joins b (TasksWait p) = joins b p"
| "joins b (Go c p) = (obliged c \<and> no_go c \<and> joins True p)"
| "joins b (WgDone p) = joins b p"
| "joins b (WgWait p) = (joins False p)"
| "joins b (BeginShutdown p) = joins b p"
| "joins b (Select k) = (\<forall>x. joins b (k x))"
| "joins b (CtxErr c k) = (\<forall>x. joins b (k x))"
| "joins b (Now k) = (\<forall>x. joins b (k x))"
| "joins b (NameSuffix k) = (\<forall>x. joins b (k x))"
| "joins b (TrackAdd r p) = joins b p"
| "joins b (TrackRemove n p) = joins b p"
| "joins b (TrackGet n k) = (\<forall>x. joins b (k x))"
| "joins b (TrackSize k) = (\<forall>x. joins b (k x))"
| "joins b (TrackNames k) = (\<forall>x. joins b (k x))"
| "joins b (TrackSnapshot k) = (\<forall>x. joins b (k x))"
| "joins b (MarkIdle n t k) = (\<forall>x. joins b (k x))"
| "joins b (MarkBusy n t k) = (\<forall>x. joins b (k x))"
| "joins b (MarkForTermination n k) = (\<forall>x. joins b (k x))"
| "joins b (AskTerminationPending n k) = (\<forall>x. joins b (k x))"
| "joins b (Resolve c a k) = (\<forall>x. joins b (k x))"
| "joins b (GenerateJIT c n w k) = (\<forall>x. joins b (k x))"
| "joins b (RemoveRunner c j k) = (\<forall>x. joins b (k x))"
| "joins b (IncusLaunch c q k) = (\<forall>x. joins b (k x))"
| "joins b (IncusStop c n k) = (\<forall>x. joins b (k x))"
| "joins b (IncusDelete c n k) = (\<forall>x. joins b (k x))"
| "joins b (IncusList c n k) = (\<forall>x. joins b (k x))"
| "joins b (Metric m p) = joins b p"

lemma step_obliged:
  "step code r p s = Some (s', p', new) \<Longrightarrow> obliged p \<Longrightarrow> returned p' \<or> obliged p'"
  by (cases p) (auto simp: Let_def split: if_splits reply.splits prod.splits)

lemma step_no_go:
  "step code r p s = Some (s', p', new) \<Longrightarrow> no_go p \<Longrightarrow>
     no_go p' \<and> reapWg s' \<le> reapWg s \<and> set new \<subseteq> {spawn_body code}"
  by (cases p) (auto simp: Let_def record_call_def split: if_splits reply.splits prod.splits)

lemma step_joins:
  assumes "step code r p s = Some (s', p', new)" "joins b p" "b \<or> reapWg s = 0" "joins False (loop_head code)"
  shows "crashed s' \<or> (\<exists>b'. joins b' p' \<and> (b' \<or> reapWg s' = 0) \<and> (\<forall>q \<in> set new. q = spawn_body code \<or> obliged q \<and> no_go q))"
proof (cases p)
  case (Go c q)
  with assms show ?thesis by (intro disjI2 exI [of _ True]) auto
next
  case (WgWait q)
  with assms show ?thesis by (intro disjI2 exI [of _ False]) (auto split: if_splits)
qed (use assms in \<open>auto simp: Let_def record_call_def intro!: exI [of _ b]
    split: if_splits reply.splits prod.splits\<close>)

text \<open>A goroutine that is bound to a Done owes one, unless it panics.\<close>

lemma drawn_zeros: "drawn_suffix ''00000000''"
  by (simp add: drawn_suffix_def alnum_char_def is_digit_def is_lower_def byte_def)

lemma obliged_owes: "obliged p \<Longrightarrow> safe p \<Longrightarrow> owes M p i m l t w \<Longrightarrow> 0 < t \<or> 0 < w"
proof (induction p arbitrary: i m l t w)
  case (NameSuffix k)
  then show ?case using drawn_zeros by fastforce
qed fastforce+

section \<open>The goroutines of the program\<close>

lemma kept [simp]:
  "obliged (removeRunnerByID c i k) = obliged k" "no_go (removeRunnerByID c i k) = no_go k"
  "joins b (removeRunnerByID c i k) = joins b k"
  "obliged (setTracked k) = obliged k" "no_go (setTracked k) = no_go k" "joins b (setTracked k) = joins b k"
  by (auto simp: removeRunnerByID_def setTracked_def)

lemma best_effort [simp]:
  "obliged k \<Longrightarrow> obliged (removeRunnerBestEffort c ref k)" "no_go k \<Longrightarrow> no_go (removeRunnerBestEffort c ref k)"
  by (simp_all add: removeRunnerBestEffort_def split: option.splits)

lemma kept_terminate [simp]:
  "obliged k \<Longrightarrow> obliged (terminateInstance c n k)" "no_go k \<Longrightarrow> no_go (terminateInstance c n k)"
  by (simp_all add: terminateInstance_def Let_def split: option.splits)

lemma kept_launch [simp]:
  "obliged k \<Longrightarrow> obliged (launch c req tr k)" "no_go k \<Longrightarrow> no_go (launch c req tr k)"
  by (simp_all add: launch_def split: sum.splits)

lemma spawn_member: "obliged (spawnIdleRunner o1)" "no_go (spawnIdleRunner o1)"
  by (simp_all add: spawnIdleRunner_def spawn_mint_def spawn_tail_def Let_def split: option.splits sum.splits)

lemma reap_member:
  "obliged k \<Longrightarrow> obliged (reapTracked o1 c r now k)" "no_go k \<Longrightarrow> no_go (reapTracked o1 c r now k)"
  by (simp_all add: reapTracked_def split: runnerState.splits)

lemma joins_parallelReap:
  "\<forall>f \<in> set fs. \<forall>k. (obliged k \<longrightarrow> obliged (f k)) \<and> (no_go k \<longrightarrow> no_go (f k)) \<Longrightarrow> joins False k \<Longrightarrow>
     joins b (parallelReap c fs k)"
  by (induction fs arbitrary: b) auto

lemma joins_reapOnce: "joins False k \<Longrightarrow> joins False (reapOnce o1 c k)"
  by (auto simp: reapOnce_def driftSweep_def Let_def reap_member intro!: joins_parallelReap split: sum.splits)

lemma joins_Run: "joins False (Run o1)"
  by (auto simp: Run_def run_shutdown_def joins_reapOnce)

lemma no_go_spawn_loop: "no_go k \<Longrightarrow> no_go (spawn_loop n k)"
  by (induction n) auto

lemma no_go_handlers:
  "no_go (HandleDesiredRunnerCount o1 n)" "no_go (HandleJobStarted e)" "no_go (HandleJobCompleted e)"
  by (auto simp: HandleDesiredRunnerCount_def HandleJobStarted_def HandleJobCompleted_def Let_def no_go_spawn_loop
      split: option.splits)

section \<open>One listener\<close>

text \<open>
  The listener makes one call at a time. \<open>joined ts cur s\<close>: goroutine 0 is Run, \<open>cur\<close> is the
  call the listener made last, and every other goroutine has returned or will end with a Done.
\<close>

definition joined :: "proc list \<Rightarrow> nat option \<Rightarrow> shared \<Rightarrow> bool" where
  "joined ts cur s \<longleftrightarrow> crashed s \<or> (ts \<noteq> [] \<and> (\<exists>b. joins b (ts ! 0) \<and> (b \<or> reapWg s = 0)) \<and> pred_option (\<lambda>k. k < length ts) cur
     \<and> (\<forall>k. 0 < k \<and> k < length ts \<longrightarrow> no_go (ts ! k) \<and> (cur = Some k \<or> returned (ts ! k) \<or> obliged (ts ! k))))"

definition idle_call :: "proc list \<Rightarrow> nat option \<Rightarrow> bool" where
  "idle_call ts cur \<longleftrightarrow> (case cur of None \<Rightarrow> True | Some k \<Rightarrow> k < length ts \<and> returned (ts ! k))"

lemma joined_init: "reapWg s = 0 \<Longrightarrow> joined [Run o1] None s"
  using joins_Run [of o1] by (auto simp: joined_def)

lemma joined_thread:
  assumes "sys_step o1 (Thread i r) y = Some y'" "joined (threads y) cur (shared y)"
  shows "joined (threads y') cur (shared y')"
proof (cases "crashed (shared y')")
  case False
  let ?ts = "threads y"
  obtain s p new where i: "i < length ?ts" and nc: "\<not> crashed (shared y)"
    and st: "step (program o1) r (?ts ! i) (shared y) = Some (s, p, new)"
    and y': "threads y' = ?ts[i := p] @ new" "shared y' = s"
    using assms(1) by (auto split: if_splits)
  obtain b where b: "joins b (?ts ! 0)" "b \<or> reapWg (shared y) = 0"
    and rest: "\<And>k. 0 < k \<Longrightarrow> k < length ?ts \<Longrightarrow> no_go (?ts ! k) \<and> (cur = Some k \<or> returned (?ts ! k) \<or> obliged (?ts ! k))"
    using assms(2) nc by (auto simp: joined_def)
  have "(\<exists>b'. joins b' (?ts[i := p] ! 0) \<and> (b' \<or> reapWg s = 0)) \<and> (\<forall>q \<in> set new. obliged q \<and> no_go q)
     \<and> (0 < i \<longrightarrow> no_go p \<and> (cur = Some i \<or> returned p \<or> obliged p))"
  proof (cases "i = 0")
    case True
    with step_joins [OF st, of b] joins_Run b i False y'(2) show ?thesis by (auto simp: spawn_member)
  next
    case False
    with rest i have ri: "no_go (?ts ! i)" "cur = Some i \<or> returned (?ts ! i) \<or> obliged (?ts ! i)" by auto
    have "\<not> returned (?ts ! i)" using st by (cases "?ts ! i") auto
    then have "cur = Some i \<or> returned p \<or> obliged p" using ri(2) step_obliged [OF st] by blast
    with step_no_go [OF st ri(1)] False b show ?thesis
      by (intro conjI exI [of _ b]) (auto simp: spawn_member)
  qed
  then obtain b' where "joins b' (?ts[i := p] ! 0)" "b' \<or> reapWg s = 0"
    and new: "\<forall>q \<in> set new. obliged q \<and> no_go q"
    and ip: "0 < i \<longrightarrow> no_go p \<and> (cur = Some i \<or> returned p \<or> obliged p)" by blast
  then have "\<exists>b. joins b (threads y' ! 0) \<and> (b \<or> reapWg s = 0)"
    using i by (intro exI [of _ b']) (auto simp: y' nth_append)
  moreover have "no_go (threads y' ! k) \<and> (cur = Some k \<or> returned (threads y' ! k) \<or> obliged (threads y' ! k))"
    if k: "0 < k" "k < length (threads y')" for k
  proof (cases "k < length ?ts")
    case True
    with rest [of k] ip k show ?thesis by (cases "k = i") (auto simp: y' nth_append)
  next
    case False
    then have "threads y' ! k \<in> set new" using k by (auto simp: y' nth_append)
    with new show ?thesis by blast
  qed
  moreover have "threads y' \<noteq> []" "pred_option (\<lambda>k. k < length (threads y')) cur"
    using i assms(2) nc by (auto simp: y' joined_def intro: option.pred_mono_strong)
  ultimately show ?thesis by (simp add: joined_def y'(2))
qed (simp add: joined_def)

lemma joined_call:
  assumes "sys_step o1 l y = Some y'" "handler l" "joined (threads y) cur (shared y)" "idle_call (threads y) cur"
  shows "joined (threads y') (Some (length (threads y))) (shared y')" "shared y' = shared y"
proof -
  obtain p where y': "y' = y\<lparr>threads := threads y @ [p]\<rparr>" "no_go p"
    using assms(1,2) by (cases l) (auto simp: no_go_handlers)
  then show "shared y' = shared y" by simp
  have "joined (threads y @ [p]) (Some (length (threads y))) (shared y)"
    using assms(3,4) y'(2) by (force simp: joined_def idle_call_def nth_append less_Suc_eq split: option.splits)
  then show "joined (threads y') (Some (length (threads y))) (shared y')" by (simp add: y')
qed

text \<open>
  When Run has returned and the listener's last call is done, every goroutine of the class
  has returned.
\<close>

lemma joined_end:
  assumes inv: "pool_inv M y" "shutdown_inv y" "list_all safe (threads y)" "\<not> crashed (shared y)"
    and j: "joined (threads y) cur (shared y)"
    and ret: "returned (threads y ! 0)" "idle_call (threads y) cur"
  shows "list_all returned (threads y)"
proof -
  let ?ts = "threads y"
  have ne: "?ts \<noteq> []" and rest: "\<And>k. 0 < k \<Longrightarrow> k < length ?ts \<Longrightarrow> cur = Some k \<or> returned (?ts ! k) \<or> obliged (?ts ! k)"
    using j inv(4) by (auto simp: joined_def)
  obtain ph b where "drains ph (?ts ! 0)" "phase_holds ph (shared y)" "joins b (?ts ! 0)" "b \<or> reapWg (shared y) = 0"
    using inv(2,4) j by (auto simp: shutdown_inv_def joined_def)
  with ret(1) have zero: "tasks (shared y) = 0" "reapWg (shared y) = 0"
    by (cases "?ts ! 0"; auto simp: phase_holds_def)+
  obtain as where as: "list_all2 (pays M) ?ts as" "balances (shared y) as"
    using inv(1,4) by (auto simp: pool_inv_def books_def)
  have "returned (?ts ! k)" if k: "k < length ?ts" for k
  proof (rule ccontr)
    assume not: "\<not> returned (?ts ! k)"
    then have "0 < k" using ret(1) by (cases k) auto
    with not rest [of k] k ret(2) have "obliged (?ts ! k)" by (auto simp: idle_call_def)
    moreover have "safe (?ts ! k)" using inv(3) k by (simp add: list_all_length)
    moreover have "taskDebts (as ! k) = 0" "wgDebts (as ! k) = 0"
      using total_member [of k as taskDebts] total_member [of k as wgDebts] zero as k
      by (simp_all add: balances_def list_all2_lengthD [OF as(1), symmetric])
    ultimately show False
      using list_all2_nthD [OF as(1) k] obliged_owes by (fastforce simp: pays_def)
  qed
  then show ?thesis by (simp add: list_all_length)
qed

end
