(* ===== verification/Runtime.thy ===== *)
theory Runtime imports Process Fleet_Quiescence Orchestrator_Join begin

text \<open>
  The last part of run in cmd/incuse/main.go: the errgroup with the metrics server and, for
  every class, the listener and Run of the orchestrator; what Wait returns; and the deferred
  Close of the scale sets.
\<close>

section \<open>The errgroup\<close>

text \<open>
  The functions the group runs. An error is context.Canceled (or wraps it), which main takes
  for a regular end, or another one.
\<close>

datatype task = TServer | TListener nat | TRun nat

datatype go_error = ContextCanceled | OtherError string

text \<open>
  The state: the classes, for each the goroutine of the call its listener made last, whether
  the context of the group is cancelled, the functions of the group and those that have
  returned, and the first error one of them returned.
\<close>

record runtime =
  g_fleet :: fleet
  g_calls :: "nat option list"
  g_cancelled :: bool
  g_tasks :: "task list"
  g_done :: "task list"
  g_err :: "go_error option"

definition start_runtime :: "Config \<Rightarrow> runtimeSet list \<Rightarrow> runtime" where
  "start_runtime c sets =
     \<lparr>g_fleet = start_fleet sets, g_calls = replicate (length sets) None, g_cancelled = False,
      g_tasks = (if ListenAddr (Observability c) \<noteq> [] then [TServer] else [])
        @ concat (map (\<lambda>i. [TListener i, TRun i]) [0..<length sets]),
      g_done = [], g_err = None\<rparr>"

definition class_threads :: "runtime \<Rightarrow> nat \<Rightarrow> proc list" where
  "class_threads st i = threads (m_sys (f_members (g_fleet st) ! i))"

text \<open>
  When a function can return, and with what: the server with nil only once the context is
  done; the listener, which is a library, with anything, but not in the middle of a call;
  the orchestrator with the error of the context, which is what Run returns, when its Run
  has come to an end.
\<close>

fun can_return :: "task \<Rightarrow> go_error option \<Rightarrow> runtime \<Rightarrow> bool" where
  "can_return TServer e st = (e = None \<longrightarrow> g_cancelled st)"
| "can_return (TListener i) e st = idle_call (class_threads st i) (g_calls st ! i)"
| "can_return (TRun i) e st =
     (e = Some ContextCanceled \<and> returned (class_threads st i ! 0))"

definition cancel_group :: "runtime \<Rightarrow> runtime" where
  "cancel_group st = st\<lparr>g_cancelled := True,
     g_fleet := (g_fleet st)\<lparr>f_members := map cancel_member (f_members (g_fleet st))\<rparr>\<rparr>"

text \<open>The first error is kept, and cancels the context of the group.\<close>

definition task_returns :: "task \<Rightarrow> go_error option \<Rightarrow> runtime \<Rightarrow> runtime" where
  "task_returns t e st =
     (let st1 = st\<lparr>g_done := t # g_done st\<rparr> in
      case e of None \<Rightarrow> st1
      | Some x \<Rightarrow> cancel_group (if g_err st = None then st1\<lparr>g_err := Some x\<rparr> else st1))"

datatype runtime_label =
    Signal
  | Goroutine nat nat reply
  | Call nat label
  | Ret task "go_error option"

fun runtime_step :: "runtime_label \<Rightarrow> runtime \<Rightarrow> runtime option" where
  "runtime_step Signal st = Some (cancel_group st)"
| "runtime_step (Goroutine i j r) st =
     map_option (\<lambda>f. st\<lparr>g_fleet := f\<rparr>) (fleet_step (Member i (Thread j r)) (g_fleet st))"
| "runtime_step (Call i l) st =
     (if handler l \<and> TListener i \<in> set (g_tasks st) - set (g_done st)
        \<and> idle_call (class_threads st i) (g_calls st ! i)
      then map_option (\<lambda>f. st\<lparr>g_fleet := f, g_calls := (g_calls st)[i := Some (length (class_threads st i))]\<rparr>)
        (fleet_step (Member i l) (g_fleet st))
      else None)"
| "runtime_step (Ret t e) st =
     (if t \<in> set (g_tasks st) - set (g_done st) \<and> can_return t e st \<and> \<not> fleet_down (g_fleet st)
      then Some (task_returns t e st) else None)"

text \<open>Wait returns when every function has.\<close>

definition finished :: "runtime \<Rightarrow> bool" where
  "finished st \<longleftrightarrow> set (g_tasks st) \<subseteq> set (g_done st)"

fun permits :: "(label \<Rightarrow> sys \<Rightarrow> bool) \<Rightarrow> runtime_label \<Rightarrow> runtime \<Rightarrow> bool" where
  "permits A (Goroutine i j r) st = allowed A (Member i (Thread j r)) (g_fleet st)"
| "permits A (Call i l) st = allowed A (Member i l) (g_fleet st)"
| "permits A l st = True"

inductive runtime_reachable :: "(label \<Rightarrow> sys \<Rightarrow> bool) \<Rightarrow> runtime \<Rightarrow> runtime \<Rightarrow> bool" for A st0 where
  runtime_init: "runtime_reachable A st0 st0"
| runtime_next: "runtime_reachable A st0 st \<Longrightarrow> permits A l st \<Longrightarrow> runtime_step l st = Some st' \<Longrightarrow>
     runtime_reachable A st0 st'"

section \<open>What the group does to the classes\<close>

lemma cancel_step: "fleet_step CancelAll (g_fleet st) = Some (g_fleet (cancel_group st))"
  by (simp add: cancel_group_def)

lemma task_returns_simps [simp]:
  "g_done (task_returns t e st) = t # g_done st" "g_tasks (task_returns t e st) = g_tasks st"
  "g_calls (task_returns t e st) = g_calls st"
  "g_fleet (task_returns t e st) = (if e = None then g_fleet st else g_fleet (cancel_group st))"
  "g_cancelled (task_returns t e st) = (g_cancelled st \<or> e \<noteq> None)"
  "g_err (task_returns t e st) = (case g_err st of None \<Rightarrow> e | Some x \<Rightarrow> Some x)"
  by (auto simp: task_returns_def cancel_group_def Let_def split: option.splits)

lemma runtime_fleet:
  assumes "fleet_reachable A f0 (g_fleet st)" "permits A l st" "runtime_step l st = Some st'"
  shows "fleet_reachable A f0 (g_fleet st')"
proof -
  have c: "fleet_reachable A f0 (g_fleet (cancel_group st))"
    by (rule fleet_next [OF assms(1) _ cancel_step]) simp
  show ?thesis
  proof (cases l)
    case Signal
    with assms(3) c show ?thesis by simp
  next
    case (Ret t e)
    with assms(1,3) c show ?thesis by (auto split: if_splits)
  qed (use assms in \<open>auto split: if_splits simp del: fleet_step.simps allowed.simps intro: fleet_next\<close>)
qed

lemma runtime_reachable_fleet:
  "runtime_reachable A st0 st \<Longrightarrow> fleet_reachable A (g_fleet st0) (g_fleet st)"
  by (induction rule: runtime_reachable.induct) (auto intro: fleet_init runtime_fleet)

section \<open>The goroutines of a class in the group\<close>

text \<open>
  A class has its Run and the calls of its listener, one at a time; when the listener has
  returned its last call has, and when the Run of the group has returned the goroutine has.
\<close>

definition class_inv :: "runtime \<Rightarrow> nat \<Rightarrow> bool" where
  "class_inv st i \<longleftrightarrow> class_threads st i \<noteq> []
     \<and> joined (class_threads st i) (g_calls st ! i) (shared (m_sys (f_members (g_fleet st) ! i)))
     \<and> (TListener i \<in> set (g_done st) \<longrightarrow> idle_call (class_threads st i) (g_calls st ! i))
     \<and> (TRun i \<in> set (g_done st) \<longrightarrow> returned (class_threads st i ! 0) \<and> g_err st \<noteq> None)"

definition runtime_inv :: "nat \<Rightarrow> runtime \<Rightarrow> bool" where
  "runtime_inv n st \<longleftrightarrow> length (f_members (g_fleet st)) = n \<and> length (g_calls st) = n
     \<and> (\<forall>i < n. class_inv st i) \<and> (g_err st \<noteq> None \<longrightarrow> g_cancelled st)"

text \<open>When the context of the group is done, so is that of every class.\<close>

definition all_cancelled :: "runtime \<Rightarrow> bool" where
  "all_cancelled st \<longleftrightarrow>
     (g_cancelled st \<longrightarrow> list_all (\<lambda>m. callerDone (shared (m_sys m))) (f_members (g_fleet st)))"

lemma own_callerDone:
  "sys_step o1 l y = Some y' \<Longrightarrow> own_label l \<Longrightarrow> callerDone (shared y') = callerDone (shared y)"
  by (cases l) (auto simp: step_callerDone split: if_splits)

lemma fleet_step_callerDone:
  assumes "fleet_step (Member i l) f = Some f'" "list_all (\<lambda>m. callerDone (shared (m_sys m))) (f_members f)"
  shows "list_all (\<lambda>m. callerDone (shared (m_sys m))) (f_members f')"
proof -
  obtain y where i: "i < length (f_members f)" "own_label l" and f': "f' = after_step f i y"
    and y: "sys_step (m_orch (f_members f ! i)) l (view f (f_members f ! i)) = Some y"
    using assms(1) by (auto split: if_splits)
  have "callerDone (shared y)"
    using own_callerDone [OF y i(2)] assms(2) i(1) by (simp add: view_def with_limiters_def list_all_length)
  with assms(2) show ?thesis by (simp add: f' after_step_def Let_def list_all_update)
qed

lemma all_cancelled_step:
  assumes "all_cancelled st" "runtime_step l st = Some st'"
  shows "all_cancelled st'"
proof -
  have c: "all_cancelled (cancel_group st1)" for st1
    by (simp add: all_cancelled_def cancel_group_def cancel_member_def list_all_iff)
  show ?thesis
  proof (cases l)
    case (Ret t e)
    have "all_cancelled (task_returns t e st)"
      using assms(1) c by (cases e) (simp_all add: task_returns_def Let_def all_cancelled_def)
    with assms(2) Ret show ?thesis by (auto split: if_splits)
  qed (use assms c in \<open>auto simp: all_cancelled_def split: if_splits simp del: fleet_step.simps
        intro: fleet_step_callerDone\<close>)
qed

lemma joined_cong:
  "crashed s = crashed s' \<Longrightarrow> reapWg s = reapWg s' \<Longrightarrow> joined ts cur s = joined ts cur s'"
  by (simp add: joined_def)

lemma returned_stays:
  assumes "sys_step o1 l y = Some y'" "own_label l" "k < length (threads y)" "returned (threads y ! k)"
  shows "k < length (threads y') \<and> returned (threads y' ! k)"
proof (cases l)
  case (Thread i r)
  with assms obtain s p new where "step (program o1) r (threads y ! i) (shared y) = Some (s, p, new)"
    "threads y' = (threads y)[i := p] @ new" by (auto split: if_splits)
  moreover from this(1) have "\<not> returned (threads y ! i)" by (cases "threads y ! i") auto
  ultimately show ?thesis using assms(3,4) by (cases "k = i") (auto simp: nth_append)
qed (use assms in \<open>auto simp: nth_append\<close>)

lemma view_same:
  "threads (view f m) = threads (m_sys m)" "crashed (shared (view f m)) = crashed (shared (m_sys m))"
  "reapWg (shared (view f m)) = reapWg (shared (m_sys m))"
  by (simp_all add: view_def with_limiters_def)

lemma cancel_same [simp]:
  "class_threads (cancel_group st) i = class_threads st i" if "i < length (f_members (g_fleet st))"
  using that by (simp add: cancel_group_def class_threads_def cancel_member_def)

lemma cancel_group_simps [simp]:
  "g_calls (cancel_group st) = g_calls st" "g_done (cancel_group st) = g_done st"
  "g_err (cancel_group st) = g_err st" "g_cancelled (cancel_group st)"
  "length (f_members (g_fleet (cancel_group st))) = length (f_members (g_fleet st))"
  "i < length (f_members (g_fleet st)) \<Longrightarrow>
     joined ts cur (shared (m_sys (f_members (g_fleet (cancel_group st)) ! i)))
       = joined ts cur (shared (m_sys (f_members (g_fleet st) ! i)))"
  by (simp_all add: cancel_group_def cancel_member_def joined_def)

lemma cancel_inv: "runtime_inv n st \<Longrightarrow> runtime_inv n (cancel_group st)"
  by (auto simp: runtime_inv_def class_inv_def)

text \<open>One class runs: its goroutines and, possibly, its listener's call change.\<close>

lemma class_runs:
  assumes inv: "runtime_inv n st" and i: "i < n" and l: "own_label l"
    and st: "fleet_step (Member i l) (g_fleet st) = Some f"
    and st': "st' = st\<lparr>g_fleet := f, g_calls := calls\<rparr>" "length calls = n" "\<And>k. k \<noteq> i \<Longrightarrow> calls ! k = g_calls st ! k"
    and j: "\<And>y. sys_step (m_orch (f_members (g_fleet st) ! i)) l (view (g_fleet st) (f_members (g_fleet st) ! i)) = Some y
      \<Longrightarrow> joined (threads y) (calls ! i) (shared y)"
    and idle: "TListener i \<in> set (g_done st) \<Longrightarrow> calls ! i = g_calls st ! i"
  shows "runtime_inv n st'"
proof -
  let ?m = "f_members (g_fleet st) ! i"
  obtain y where y: "sys_step (m_orch ?m) l (view (g_fleet st) ?m) = Some y" and f: "f = after_step (g_fleet st) i y"
    using st by (auto split: if_splits)
  have len: "length (f_members (g_fleet st)) = n" and ci: "class_inv st i" using inv i by (auto simp: runtime_inv_def)
  have new: "class_threads st' i = threads y" "m_sys (f_members (g_fleet st') ! i) = y"
    using i len by (simp_all add: class_threads_def st'(1) f after_step_members)
  have old: "threads (view (g_fleet st) ?m) = class_threads st i" by (simp add: class_threads_def view_same)
  have keep: "k < length (threads y) \<and> returned (threads y ! k)"
    if "k < length (class_threads st i)" "returned (class_threads st i ! k)" for k
    using returned_stays [OF y l, unfolded old] that by blast
  have ne: "class_threads st i \<noteq> []" using ci by (simp add: class_inv_def)
  moreover have "length (class_threads st i) \<le> length (threads y)"
    using y l by (cases l) (auto simp: old [symmetric] split: if_splits)
  ultimately have "threads y \<noteq> []" by auto
  moreover have "idle_call (threads y) (calls ! i)" if d: "TListener i \<in> set (g_done st)"
    using ci d idle [OF d] keep by (auto simp: class_inv_def idle_call_def split: option.splits)
  moreover have "returned (threads y ! 0) \<and> g_err st \<noteq> None" if "TRun i \<in> set (g_done st)"
    using ci that keep [of 0] ne by (auto simp: class_inv_def)
  ultimately have "class_inv st' i" using j [OF y] by (simp add: class_inv_def new) (simp add: st'(1))
  moreover have "class_inv st' k" if "k < n" "k \<noteq> i" for k
  proof -
    have "f_members (g_fleet st') ! k = f_members (g_fleet st) ! k" using that by (simp add: st'(1) f after_step_members)
    then show ?thesis using inv that st'(3) [of k]
      by (simp add: runtime_inv_def class_inv_def class_threads_def) (simp add: st'(1))
  qed
  ultimately have "class_inv st' k" if "k < n" for k using that by (cases "k = i") auto
  then show ?thesis using inv st'(2) by (simp add: runtime_inv_def) (simp add: st'(1) f after_step_members)
qed

lemma runtime_inv_step:
  assumes inv: "runtime_inv n st" and st: "runtime_step l st = Some st'"
  shows "runtime_inv n st'"
proof (cases l)
  case Signal
  with st cancel_inv [OF inv] show ?thesis by simp
next
  case (Goroutine i j r)
  with st obtain f where f: "fleet_step (Member i (Thread j r)) (g_fleet st) = Some f" "st' = st\<lparr>g_fleet := f\<rparr>" by auto
  have i: "i < n" using f(1) inv by (auto simp: runtime_inv_def split: if_splits)
  have ci: "joined (class_threads st i) (g_calls st ! i) (shared (view (g_fleet st) (f_members (g_fleet st) ! i)))"
    using inv i by (auto simp: runtime_inv_def class_inv_def view_same cong: joined_cong)
  show ?thesis
    by (rule class_runs [OF inv i _ f(1), of st' "g_calls st"])
      (use f(2) inv joined_thread ci in \<open>auto simp: runtime_inv_def class_threads_def view_same simp del: sys_step.simps\<close>)
next
  case (Call i l')
  with st obtain f where h: "handler l'" "TListener i \<in> set (g_tasks st) - set (g_done st)"
      "idle_call (class_threads st i) (g_calls st ! i)"
    and f: "fleet_step (Member i l') (g_fleet st) = Some f"
      "st' = st\<lparr>g_fleet := f, g_calls := (g_calls st)[i := Some (length (class_threads st i))]\<rparr>"
    by (auto split: if_splits simp del: fleet_step.simps)
  have i: "i < n" using f(1) inv by (auto simp: runtime_inv_def split: if_splits)
  have ci: "joined (class_threads st i) (g_calls st ! i) (shared (view (g_fleet st) (f_members (g_fleet st) ! i)))"
    using inv i by (auto simp: runtime_inv_def class_inv_def view_same cong: joined_cong)
  have v: "threads (view (g_fleet st) (f_members (g_fleet st) ! i)) = class_threads st i"
    by (simp add: view_same class_threads_def)
  show ?thesis
  proof (rule class_runs [OF inv i _ f(1) f(2)])
    fix y
    assume y: "sys_step (m_orch (f_members (g_fleet st) ! i)) l' (view (g_fleet st) (f_members (g_fleet st) ! i)) = Some y"
    show "joined (threads y) ((g_calls st)[i := Some (length (class_threads st i))] ! i) (shared y)"
      using joined_call(1) [OF y h(1), unfolded v, OF ci h(3)] inv i by (simp add: runtime_inv_def)
  qed (use h inv in \<open>auto simp: runtime_inv_def elim: handler.elims\<close>)
next
  case (Ret t e)
  with st have r: "t \<in> set (g_tasks st)" "can_return t e st" "st' = task_returns t e st"
    by (auto split: if_splits)
  have len: "length (f_members (g_fleet st)) = n" using inv by (simp add: runtime_inv_def)
  have same: "class_threads st' i = class_threads st i"
    "joined ts cur (shared (m_sys (f_members (g_fleet st') ! i))) = joined ts cur (shared (m_sys (f_members (g_fleet st) ! i)))"
    if "i < n" for i ts cur
    using that len by (auto simp: r(3) class_threads_def) (auto simp: class_threads_def [symmetric])
  have "class_inv st' i" if i: "i < n" for i
    using inv i r(2) same [OF i] by (cases t) (auto simp: runtime_inv_def class_inv_def r(3) split: option.splits)
  then show ?thesis using inv by (auto simp: runtime_inv_def r(3) split: option.splits)
qed

lemma runtime_tasks: "runtime_step l st = Some st' \<Longrightarrow> g_tasks st' = g_tasks st"
  by (cases l) (auto simp: cancel_group_def split: if_splits simp del: fleet_step.simps)

definition runtime_tasks_of :: "bool \<Rightarrow> nat \<Rightarrow> task set" where
  "runtime_tasks_of srv n = (if srv then {TServer} else {}) \<union> TListener ` {..<n} \<union> TRun ` {..<n}"

lemma start_runtime_inv:
  assumes "valid_config v url_parse c" "run_startup v w c = (None, sets)"
  shows "runtime_inv (length sets) (start_runtime c sets)"
    and "set (g_tasks (start_runtime c sets)) = runtime_tasks_of (ListenAddr (Observability c) \<noteq> []) (length sets)"
proof -
  show "set (g_tasks (start_runtime c sets)) = runtime_tasks_of (ListenAddr (Observability c) \<noteq> []) (length sets)"
    by (auto simp: start_runtime_def runtime_tasks_of_def)
  note st = started_fleet [OF assms]
  have "class_inv (start_runtime c sets) i" if i: "i < length sets" for i
  proof -
    obtain o1 s where m: "start_members sets ! i = (o1, s)" by (cases "start_members sets ! i")
    moreover obtain old where "s = init_shared (mint_limiter c) (launch_limiter c) old"
      using st(3) i m by (auto simp: fresh_members_def list_all_length st(4))
    ultimately show ?thesis using i
      by (simp add: class_inv_def class_threads_def start_runtime_def start_fleet_def init_fleet_def st(4) init_sys_def
          joined_init init_shared_def)
  qed
  then show "runtime_inv (length sets) (start_runtime c sets)"
    by (simp add: runtime_inv_def start_runtime_def start_fleet_def init_fleet_def st(4))
qed

lemma runtime_reachable_inv:
  assumes "valid_config v url_parse c" "run_startup v w c = (None, sets)"
    and "runtime_reachable A (start_runtime c sets) st"
  shows "runtime_inv (length sets) st
     \<and> set (g_tasks st) = runtime_tasks_of (ListenAddr (Observability c) \<noteq> []) (length sets)
     \<and> fleet_reachable A (init_fleet (start_members sets)) (g_fleet st)
     \<and> all_cancelled st"
  using assms(3)
proof (induction rule: runtime_reachable.induct)
  case runtime_init
  show ?case
    using start_runtime_inv [OF assms(1,2)] fleet_init
    by (simp add: start_runtime_def start_fleet_def all_cancelled_def)
next
  case (runtime_next st l st')
  then show ?case
    using runtime_inv_step [OF _ runtime_next.hyps(3)] runtime_tasks [OF runtime_next.hyps(3)]
      runtime_fleet [OF _ runtime_next.hyps(2,3)] all_cancelled_step [OF _ runtime_next.hyps(3)] by simp
qed

section \<open>What Wait promises\<close>

lemma finished_at_rest:
  assumes "valid_config v url_parse c" "run_startup v w c = (None, sets)"
    and "runtime_reachable suffix_env (start_runtime c sets) st" "finished st"
  shows "fleet_at_rest (g_fleet st) \<and> g_err st \<noteq> None \<and> g_cancelled st"
proof -
  let ?ms = "start_members sets" and ?f = "g_fleet st"
  note started = started_fleet [OF assms(1,2)]
  have inv: "runtime_inv (length sets) st"
    and tasks: "set (g_tasks st) = runtime_tasks_of (ListenAddr (Observability c) \<noteq> []) (length sets)"
    and fr: "fleet_reachable suffix_env (init_fleet ?ms) ?f"
    using runtime_reachable_inv [OF assms(1-3)] by blast+
  have finv: "fleet_inv suffix_env (mint_limiter c) (launch_limiter c) ?ms ?f"
    by (rule fleet_inv_reachable [OF open_suffix started(3) fr])
  have ended: "joined (class_threads st i) (g_calls st ! i) (shared (m_sys (f_members ?f ! i)))"
    "idle_call (class_threads st i) (g_calls st ! i)" "returned (class_threads st i ! 0)" "g_err st \<noteq> None"
    if "i < length sets" for i
    using inv assms(4) that by (auto simp: runtime_inv_def class_inv_def finished_def tasks runtime_tasks_of_def)
  have "fleet_at_rest ?f"
  proof (rule fleet_returned [OF started(3) finv])
    fix i
    assume "i < length ?ms"
    then have i: "i < length sets" "i < length ?ms" by (simp_all add: started(4))
    let ?v = "view ?f (f_members ?f ! i)"
    note facts = class_facts [OF started(3) finv i(2)]
    have t: "threads ?v = class_threads st i" by (simp add: view_same class_threads_def)
    have "joined (threads ?v) (g_calls st ! i) (shared ?v)"
      unfolding t joined_cong [OF view_same(2,3)] by (rule ended(1) [OF i(1)])
    then show "list_all returned (threads ?v)"
      using joined_end [OF facts(2,3,6,4)] ended(2,3) [OF i(1)] by (simp add: t)
  qed
  moreover have "0 < length sets" using started(6) by simp
  ultimately show ?thesis using ended(4) inv by (auto simp: runtime_inv_def)
qed

text \<open>
  A step of the group by itself: a goroutine goes on, but not with a tick of a reaper, or a
  function returns. The others are the news it gets from outside: ticks, calls of the
  listeners, signals.
\<close>

fun quiet :: "runtime_label \<Rightarrow> runtime \<Rightarrow> bool" where
  "quiet (Goroutine i j r) st = (\<not> fleet_tick i j r (g_fleet st))"
| "quiet (Ret t e) st = True"
| "quiet l st = False"

definition quiet_step :: "runtime \<Rightarrow> runtime \<Rightarrow> bool" where
  "quiet_step st st' \<longleftrightarrow> (\<exists>l. quiet l st \<and> permits suffix_env l st \<and> runtime_step l st = Some st')"

definition news_step :: "runtime \<Rightarrow> runtime \<Rightarrow> bool" where
  "news_step st st' \<longleftrightarrow> (\<exists>l. \<not> quiet l st \<and> permits suffix_env l st \<and> runtime_step l st = Some st')"

lemma wf_quiet_step: "wf {(st', st). quiet_step st st'}"
proof (rule wf_subset)
  let ?m = "\<lambda>st. (card (set (g_tasks st) - set (g_done st)), fleet_goroutines (g_fleet st))"
  show "wf (inv_image (less_than <*lex*> mult fleet_next_of) ?m)"
    by (intro wf_inv_image wf_lex_prod wf_less_than wf_mult wf_fleet_next)
  show "{(st', st). quiet_step st st'} \<subseteq> inv_image (less_than <*lex*> mult fleet_next_of) ?m"
  proof clarify
    fix st' st
    assume "quiet_step st st'"
    then obtain l where l: "quiet l st" and st: "runtime_step l st = Some st'" unfolding quiet_step_def by blast
    from l show "(st', st) \<in> inv_image (less_than <*lex*> mult fleet_next_of) ?m"
    proof (cases l)
      case (Goroutine i j r)
      with st obtain f where "fleet_step (Member i (Thread j r)) (g_fleet st) = Some f" "st' = st\<lparr>g_fleet := f\<rparr>"
        by (auto simp del: fleet_step.simps)
      with fleet_step_decreases [OF this(1)] l Goroutine show ?thesis by simp
    next
      case (Ret t e)
      with st have t: "t \<in> set (g_tasks st) - set (g_done st)" and st': "st' = task_returns t e st"
        by (auto split: if_splits)
      have "set (g_tasks st') - set (g_done st') \<subset> set (g_tasks st) - set (g_done st)"
        using t by (auto simp: st')
      then have "card (set (g_tasks st') - set (g_done st')) < card (set (g_tasks st) - set (g_done st))"
        by (intro psubset_card_mono) simp_all
      then show ?thesis by simp
    qed simp_all
  qed
qed

lemma quiet_progress:
  assumes "valid_config v url_parse c" "run_startup v w c = (None, sets)"
    and r: "runtime_reachable suffix_env (start_runtime c sets) st"
    and c: "g_cancelled st" and not: "\<not> finished st"
  shows "\<exists>st'. quiet_step st st'"
proof (cases "\<exists>f. fleet_goroutine_step suffix_env (g_fleet st) f")
  case True
  then obtain i j r f where "\<not> fleet_tick i j r (g_fleet st)" "allowed suffix_env (Member i (Thread j r)) (g_fleet st)"
    "fleet_step (Member i (Thread j r)) (g_fleet st) = Some f" by (auto simp: fleet_goroutine_step_def)
  then have "quiet (Goroutine i j r) st" "permits suffix_env (Goroutine i j r) st" "runtime_step (Goroutine i j r) st = Some (st\<lparr>g_fleet := f\<rparr>)"
    by (simp_all del: fleet_step.simps)
  then show ?thesis unfolding quiet_step_def by blast
next
  case False
  let ?ms = "start_members sets" and ?f = "g_fleet st"
  note started = started_fleet [OF assms(1,2)]
  have inv: "runtime_inv (length sets) st"
    and tasks: "set (g_tasks st) = runtime_tasks_of (ListenAddr (Observability c) \<noteq> []) (length sets)"
    and fr: "fleet_reachable suffix_env (init_fleet ?ms) ?f" and all: "all_cancelled st"
    using runtime_reachable_inv [OF assms(1,2) r] by blast+
  have "length (f_members ?f) = length ?ms" using inv by (simp add: runtime_inv_def started(4))
  then have ctx: "callerDone (shared (m_sys (f_members ?f ! i)))" if "i < length ?ms" for i
    using all c that by (simp add: all_cancelled_def list_all_length)
  have rest: "fleet_at_rest ?f"
    by (rule fleet_stuck [OF started(3) fleet_inv_reachable [OF open_suffix started(3) fr] started(1,2) ctx False])
  obtain t where t: "t \<in> set (g_tasks st) - set (g_done st)" using not by (auto simp: finished_def)
  have ret: "list_all returned (class_threads st i)" "idle_call (class_threads st i) (g_calls st ! i)"
    "returned (class_threads st i ! 0)" if i: "i < length sets" for i
  proof -
    have ci: "class_inv st i" and len: "length (f_members ?f) = length sets"
      using inv i by (auto simp: runtime_inv_def)
    have "at_rest (view ?f (f_members ?f ! i))" using rest i len by (simp add: fleet_at_rest_def list_all_length)
    then show all: "list_all returned (class_threads st i)"
      by (simp add: at_rest_def view_same class_threads_def)
    then show "returned (class_threads st i ! 0)"
      using ci by (auto simp: class_inv_def list_all_length)
    have "\<not> crashed (shared (m_sys (f_members ?f ! i)))"
      using rest i len by (simp add: fleet_at_rest_def fleet_down_def list_ex_length)
    with ci all show "idle_call (class_threads st i) (g_calls st ! i)"
      by (auto simp: class_inv_def joined_def idle_call_def list_all_length split: option.splits)
  qed
  have "\<exists>e. can_return t e st"
    using t ret c by (cases t) (auto simp: tasks runtime_tasks_of_def split: if_splits)
  then obtain e where "can_return t e st" ..
  then have "runtime_step (Ret t e) st = Some (task_returns t e st)"
    using t rest by (simp add: fleet_at_rest_def)
  then show ?thesis unfolding quiet_step_def by (intro exI [of _ "task_returns t e st"] exI [of _ "Ret t e"]) simp
qed

lemma group_ends:
  assumes "valid_config v url_parse c" "run_startup v w c = (None, sets)"
    and "runtime_reachable suffix_env (start_runtime c sets) st" "g_cancelled st"
  shows "fairly_inevitable quiet_step news_step (\<lambda>z. finished z \<and> g_err z \<noteq> None \<and> fleet_at_rest (g_fleet z)) st"
proof (rule fairly_inevitable_by_progress [OF wf_quiet_step,
    where I = "\<lambda>z. runtime_reachable suffix_env (start_runtime c sets) z \<and> g_cancelled z"])
  show "runtime_reachable suffix_env (start_runtime c sets) st \<and> g_cancelled st" using assms(3,4) ..
next
  fix y z
  assume y: "runtime_reachable suffix_env (start_runtime c sets) y \<and> g_cancelled y"
    and q: "quiet_step y z \<or> news_step y z"
  then obtain l where l: "permits suffix_env l y" "runtime_step l y = Some z"
    unfolding quiet_step_def news_step_def by blast
  then have "g_cancelled z" using y by (cases l) (auto split: if_splits simp del: fleet_step.simps)
  with l y show "runtime_reachable suffix_env (start_runtime c sets) z \<and> g_cancelled z"
    using runtime_next by blast
next
  fix y
  assume y: "runtime_reachable suffix_env (start_runtime c sets) y \<and> g_cancelled y"
    and not: "\<not> (finished y \<and> g_err y \<noteq> None \<and> fleet_at_rest (g_fleet y))"
  have "\<not> finished y" using finished_at_rest [OF assms(1,2)] y not by blast
  with y show "\<exists>z. quiet_step y z" using quiet_progress [OF assms(1,2)] by blast
qed

text \<open>
  C3: the process can always be stopped. Once the context of the group is done, by a signal
  or by the first error, then in every schedule all functions of the group return, and Wait
  returns an error with nothing left running: in every class all goroutines have returned,
  no reservation or task is open, and no mint or launch permit is in use. That Run returns is
  the doing of its select on the context; the reapers may still get ticks, the listeners may
  still call and further signals may come, in any number, as long as they do not come for
  ever. A listener and the metrics server, which are libraries, are taken to return at some
  time once nothing else is left to do.
\<close>

theorem process_stops:
  assumes "valid_config v url_parse c" "run_startup v w c = (None, sets)"
    and "runtime_reachable suffix_env (start_runtime c sets) st" "g_cancelled st"
  shows "fairly_inevitable quiet_step news_step (\<lambda>z. finished z \<and> g_err z \<noteq> None \<and> fleet_at_rest (g_fleet z)) st"
  by (rule group_ends [OF assms])

text \<open>
  C4: When Wait returns nothing is left running. In every state in which all functions of
  the group have returned, however they got there, every goroutine of every class has
  returned too (the reaper's and the spawns were joined by Run, the calls of the listener
  end before it does), every permit is back, and the result is not nil.
\<close>

theorem wait_joins_everything:
  assumes "valid_config v url_parse c" "run_startup v w c = (None, sets)"
    and "runtime_reachable suffix_env (start_runtime c sets) st" "finished st"
  shows "fleet_at_rest (g_fleet st) \<and> g_err st \<noteq> None \<and> g_cancelled st"
  by (rule finished_at_rest [OF assms])

text \<open>The result of Wait over a whole schedule: the first error some function returned.\<close>

fun first_error :: "runtime_label list \<Rightarrow> go_error option" where
  "first_error [] = None"
| "first_error (Ret t (Some e) # ls) = Some e"
| "first_error (l # ls) = first_error ls"

fun runtime_run :: "runtime_label list \<Rightarrow> runtime \<Rightarrow> runtime option" where
  "runtime_run [] st = Some st"
| "runtime_run (l # ls) st = (case runtime_step l st of None \<Rightarrow> None | Some st' \<Rightarrow> runtime_run ls st')"

lemma runtime_run_err:
  "runtime_run ls st = Some st' \<Longrightarrow> g_err st' = (case g_err st of None \<Rightarrow> first_error ls | Some e \<Rightarrow> Some e)"
proof (induction ls arbitrary: st)
  case Nil
  then show ?case by (auto split: option.splits)
next
  case (Cons l ls)
  then obtain st1 where st1: "runtime_step l st = Some st1" "runtime_run ls st1 = Some st'"
    by (auto split: option.splits)
  have "g_err st1 = (case l of Ret t e \<Rightarrow> (case g_err st of None \<Rightarrow> e | Some x \<Rightarrow> Some x) | _ \<Rightarrow> g_err st)"
    using st1(1) by (cases l) (auto split: if_splits simp del: fleet_step.simps)
  with Cons.IH [OF st1(2)] show ?case
    by (cases l; cases "g_err st") (auto split: option.splits elim: first_error.elims)
qed

lemma runtime_run_cancelled:
  "runtime_run ls st = Some st' \<Longrightarrow> g_cancelled st' \<longleftrightarrow> g_cancelled st \<or> Signal \<in> set ls \<or> first_error ls \<noteq> None"
proof (induction ls arbitrary: st)
  case (Cons l ls)
  then obtain st1 where st1: "runtime_step l st = Some st1" "runtime_run ls st1 = Some st'"
    by (auto split: option.splits)
  have "g_cancelled st1 \<longleftrightarrow> g_cancelled st \<or> l = Signal \<or> (\<exists>t e. l = Ret t (Some e))"
    using st1(1) by (cases l) (auto split: if_splits simp del: fleet_step.simps)
  moreover have "first_error (l # ls) \<noteq> None \<longleftrightarrow> (\<exists>t e. l = Ret t (Some e)) \<or> first_error ls \<noteq> None"
    by (cases "(l # ls)" rule: first_error.cases) auto
  ultimately show ?case using Cons.IH [OF st1(2)] by auto
qed simp

text \<open>
  The exit status: what run returns, which is what Wait returned, through main. An error
  that is, or wraps, context.Canceled is a regular end.
\<close>

definition exit_status :: "runtime \<Rightarrow> nat" where
  "exit_status st = (case g_err st of Some (OtherError e) \<Rightarrow> 1 | _ \<Rightarrow> 0)"


section \<open>The deferred Close\<close>

text \<open>
  The deferred function of run closes every scale set the loop over the classes has
  appended; what GitHub answers is only logged. The value is the list of the sessions for
  which Close reaches GitHub.
\<close>

definition deferred_closes :: "runtimeSet list \<Rightarrow> string list" where
  "deferred_closes sets = List.map_filter (\<lambda>r. msgClient (rt_scaleSet r)) sets"

text \<open>
  Deferred calls run last in, first out: the sessions are closed first, then the
  connection to Incus, which is deferred right after Connect.
\<close>

datatype deferred_call = CloseSession string | OnIncus request

definition run_deferred :: "world \<Rightarrow> Config \<Rightarrow> runtimeSet list \<Rightarrow> deferred_call list" where
  "run_deferred w c sets =
     (case Connect (w_readFile w) (w_connect w) (incus_client_config (w_version w) c) of
        Inl e \<Rightarrow> []
      | Inr conn \<Rightarrow> map CloseSession (deferred_closes sets) @ map OnIncus (client_Close (Some conn)))"

lemma start_sets_connected: "start_sets u w c pat key ml ll specs sets0 \<noteq> (Some (IncusConnectFailed e), sets)"
  by (induction specs arbitrary: sets0) (auto split: sum.splits prod.splits option.splits)

lemma start_sets_sessions:
  "start_sets u w c pat key ml ll specs sets0 = (err, sets) \<Longrightarrow>
     \<exists>new. sets = sets0 @ new \<and> length new \<le> length specs \<and> list_all (\<lambda>r. msgClient (rt_scaleSet r) \<noteq> None) new
       \<and> (\<forall>n e. err = Some (BootstrapFailed n e) \<longrightarrow> length new < length specs \<and> n = ss_Name (specs ! length new)
            \<and> (\<exists>ss ss'. scaleset_New (scaleset_options (w_version w) c pat key (specs ! length new)) = Inr ss
                 \<and> Bootstrap u (w_github w n) ss = (Some e, ss') \<and> msgClient ss' = None))"
proof (induction specs arbitrary: sets0)
  case (Cons spec specs)
  show ?case
  proof (cases "scaleset_New (scaleset_options (w_version w) c pat key spec)")
    case (Inl e)
    with Cons.prems show ?thesis by auto
  next
    case (Inr ss)
    obtain b ss' where boot: "Bootstrap u (w_github w (ss_Name spec)) ss = (b, ss')" by fastforce
    have none: "msgClient ss = None" using Inr by (auto simp: scaleset_New_def split: if_splits)
    show ?thesis
    proof (cases b)
      case (Some e)
      with Cons.prems Inr boot Bootstrap_shape_failed [OF boot [unfolded Some] none] show ?thesis by auto
    next
      case None
      then have open1: "msgClient ss' \<noteq> None" using boot unfolding None Bootstrap_success_iff by auto
      show ?thesis
      proof (cases "New u (2 * Suc (length sets0)) (scaleSetID ss') (w_old w) (class_config c ml ll spec)")
        case (Inl x)
        with Cons.prems Inr boot None open1 show ?thesis by auto
      next
        case (Inr o1)
        let ?r = "\<lparr>rt_scaleSet = ss', rt_orchestrator = Some o1\<rparr>"
        have "start_sets u w c pat key ml ll specs (sets0 @ [?r]) = (err, sets)"
          using Cons.prems Inr \<open>scaleset_New _ = Inr ss\<close> boot None by simp
        from Cons.IH [OF this] obtain new where "sets = (sets0 @ [?r]) @ new" "length new \<le> length specs"
          "list_all (\<lambda>r. msgClient (rt_scaleSet r) \<noteq> None) new"
          "\<forall>n e. err = Some (BootstrapFailed n e) \<longrightarrow> length new < length specs \<and> n = ss_Name (specs ! length new)
            \<and> (\<exists>ss ss'. scaleset_New (scaleset_options (w_version w) c pat key (specs ! length new)) = Inr ss
                 \<and> Bootstrap u (w_github w n) ss = (Some e, ss') \<and> msgClient ss' = None)" by blast
        then show ?thesis using open1 by (intro exI [of _ "?r # new"]) simp
      qed
    qed
  qed
qed simp

lemma startup_connected:
  "run_startup u w c = (err, sets) \<Longrightarrow>
     (\<exists>e. err = Some (IncusConnectFailed e))
       \<longleftrightarrow> (\<exists>e. Connect (w_readFile w) (w_connect w) (incus_client_config (w_version w) c) = Inl e)"
  using start_sets_connected by (auto simp: run_startup_def split: sum.splits)

lemma closes_open_sessions:
  "list_all (\<lambda>r. msgClient (rt_scaleSet r) \<noteq> None) rs \<Longrightarrow>
     map CloseSession (deferred_closes rs) = map (\<lambda>r. CloseSession (the (msgClient (rt_scaleSet r)))) rs"
  by (induction rs) (auto simp: deferred_closes_def List.map_filter_simps)

text \<open>
  C14: No message session and no connection outlives the process. However startup ends,
  every scale set it has collected has a session; unless the connection to Incus failed, the
  deferred calls close exactly these sessions and then disconnect, and if it failed there is
  nothing to close. When the bootstrap of a class fails, the one scale set that was created
  but not collected has no session.
\<close>

theorem sessions_closed:
  assumes "run_startup u w c = (err, sets)"
  shows "list_all (\<lambda>r. msgClient (rt_scaleSet r) \<noteq> None) sets
     \<and> run_deferred w c sets = (if \<exists>e. err = Some (IncusConnectFailed e) then []
          else map (\<lambda>r. CloseSession (the (msgClient (rt_scaleSet r)))) sets @ [OnIncus Disconnect])
     \<and> (\<forall>n e. err = Some (BootstrapFailed n e) \<longrightarrow>
          (\<exists>pat key ss ss'. length sets < length (ScaleSetSpecs u c)
             \<and> scaleset_New (scaleset_options (w_version w) c pat key (ScaleSetSpecs u c ! length sets)) = Inr ss
             \<and> Bootstrap u (w_github w n) ss = (Some e, ss') \<and> msgClient ss' = None))"
proof -
  have "run_deferred w c sets = (if \<exists>e. err = Some (IncusConnectFailed e) then []
      else map (\<lambda>r. CloseSession (the (msgClient (rt_scaleSet r)))) sets @ [OnIncus Disconnect])"
    if "list_all (\<lambda>r. msgClient (rt_scaleSet r) \<noteq> None) sets"
    using startup_connected [OF assms] closes_open_sessions [OF that]
    by (auto simp: run_deferred_def client_Close_def split: sum.splits)
  moreover have "list_all (\<lambda>r. msgClient (rt_scaleSet r) \<noteq> None) sets
     \<and> (\<forall>n e. err = Some (BootstrapFailed n e) \<longrightarrow>
          (\<exists>pat key ss ss'. length sets < length (ScaleSetSpecs u c)
             \<and> scaleset_New (scaleset_options (w_version w) c pat key (ScaleSetSpecs u c ! length sets)) = Inr ss
             \<and> Bootstrap u (w_github w n) ss = (Some e, ss') \<and> msgClient ss' = None))"
  proof (cases "\<exists>pat key ml ll. start_sets u w c pat key ml ll (ScaleSetSpecs u c) [] = (err, sets)")
    case True
    then obtain pat key ml ll where "start_sets u w c pat key ml ll (ScaleSetSpecs u c) [] = (err, sets)" by blast
    from start_sets_sessions [OF this] show ?thesis by fastforce
  next
    case False
    with assms have "sets = []" "\<forall>n e. err \<noteq> Some (BootstrapFailed n e)"
      by (auto simp: run_startup_def split: sum.splits)
    then show ?thesis by simp
  qed
  ultimately show ?thesis by blast
qed

section \<open>Witnesses\<close>

text \<open>The sample configuration, started; a signal comes, and everything runs to its end.\<close>

lemma sample_signal:
  "\<exists>sets. run_startup id (sample_world (Inr 1)) sample_config = (None, sets)
     \<and> runtime_reachable suffix_env (start_runtime sample_config sets) (cancel_group (start_runtime sample_config sets))"
proof -
  obtain sets where st: "run_startup id (sample_world (Inr 1)) sample_config = (None, sets)"
    using sample_startup by blast
  then show ?thesis by (intro exI [of _ sets] conjI runtime_next [OF runtime_init, of _ Signal]) simp_all
qed

theorem process_stops_witness:
  "\<exists>sets st. run_startup id (sample_world (Inr 1)) sample_config = (None, sets)
     \<and> runtime_step Signal (start_runtime sample_config sets) = Some st
     \<and> fairly_inevitable quiet_step news_step (\<lambda>z. finished z \<and> g_err z \<noteq> None \<and> fleet_at_rest (g_fleet z)) st"
proof -
  obtain sets where "run_startup id (sample_world (Inr 1)) sample_config = (None, sets)"
    "runtime_reachable suffix_env (start_runtime sample_config sets) (cancel_group (start_runtime sample_config sets))"
    using sample_signal by blast
  with process_stops [OF sample_config_valid this] show ?thesis by simp
qed

lemma steps_reachable:
  "(\<lambda>y z. quiet_step y z \<or> news_step y z)\<^sup>*\<^sup>* st st' \<Longrightarrow> runtime_reachable suffix_env st0 st \<Longrightarrow> runtime_reachable suffix_env st0 st'"
  by (induction rule: rtranclp_induct) (auto simp: quiet_step_def news_step_def intro: runtime_next simp del: runtime_step.simps)

theorem wait_joins_everything_witness:
  "\<exists>sets st. runtime_reachable suffix_env (start_runtime sample_config sets) st \<and> finished st
     \<and> length sets = 1 \<and> fleet_at_rest (g_fleet st)"
proof -
  obtain sets where sets: "run_startup id (sample_world (Inr 1)) sample_config = (None, sets)"
    and r: "runtime_reachable suffix_env (start_runtime sample_config sets) (cancel_group (start_runtime sample_config sets))"
    using sample_signal by blast
  obtain st where "(\<lambda>y z. quiet_step y z \<or> news_step y z)\<^sup>*\<^sup>* (cancel_group (start_runtime sample_config sets)) st" "finished st"
    using fairly_inevitable_reaches [OF group_ends [OF sample_config_valid sets r]] by auto
  moreover from this(1) have "runtime_reachable suffix_env (start_runtime sample_config sets) st"
    by (rule steps_reachable [OF _ r])
  moreover have "length sets = 1" using started_fleet(5) [OF sample_config_valid sets] by (simp add: sample_classes)
  ultimately show ?thesis using wait_joins_everything [OF sample_config_valid sets] by blast
qed


text \<open>A start whose session is closed at the end, and one whose bootstrap GitHub refuses.\<close>

theorem sessions_closed_witness:
  "(\<exists>sets m. run_startup id (sample_world (Inr 1)) sample_config = (None, sets)
      \<and> run_deferred (sample_world (Inr 1)) sample_config sets = [CloseSession m, OnIncus Disconnect])
   \<and> (\<exists>n e ss ss'. run_startup id (sample_world (Inl ''403'')) sample_config = (Some (BootstrapFailed n e), [])
        \<and> run_deferred (sample_world (Inl ''403'')) sample_config [] = [OnIncus Disconnect]
        \<and> Bootstrap id (w_github (sample_world (Inl ''403'')) n) ss = (Some e, ss') \<and> msgClient ss' = None)"
proof
  obtain sets where sets: "run_startup id (sample_world (Inr 1)) sample_config = (None, sets)"
    using sample_startup by blast
  have "length sets = 1" using started_fleet(5) [OF sample_config_valid sets] by (simp add: sample_classes)
  then obtain r where "sets = [r]" by (cases sets) auto
  with sessions_closed [OF sets] sets
  show "\<exists>sets m. run_startup id (sample_world (Inr 1)) sample_config = (None, sets)
      \<and> run_deferred (sample_world (Inr 1)) sample_config sets = [CloseSession m, OnIncus Disconnect]" by auto
next
  obtain n e where st: "run_startup id (sample_world (Inl ''403'')) sample_config = (Some (BootstrapFailed n e), [])"
    using sample_startup_fails by blast
  from sessions_closed [OF st] st
  show "\<exists>n e ss ss'. run_startup id (sample_world (Inl ''403'')) sample_config = (Some (BootstrapFailed n e), [])
        \<and> run_deferred (sample_world (Inl ''403'')) sample_config [] = [OnIncus Disconnect]
        \<and> Bootstrap id (w_github (sample_world (Inl ''403'')) n) ss = (Some e, ss') \<and> msgClient ss' = None"
    by auto
qed

end
