(* ===== verification/Health_Server.thy ===== *)
theory Health_Server imports Prelude begin

text \<open>
  internal/observability/server.go: the HTTP server of the operator, with its two flags, and
  the order in which cmd/incuse uses it. The metrics handler and the HTTP machinery are the
  library's.
\<close>

section \<open>The server\<close>

record server =
  configuredAddr :: string
  healthy :: bool
  ready :: bool
  srv_addr :: string

definition NewServer :: "string \<Rightarrow> server" where
  "NewServer a = \<lparr>configuredAddr = a, healthy = False, ready = False, srv_addr = []\<rparr>"

definition MarkHealthy :: "server \<Rightarrow> server" where "MarkHealthy s = s\<lparr>healthy := True\<rparr>"

definition MarkReady :: "server \<Rightarrow> server" where "MarkReady s = s\<lparr>ready := True\<rparr>"

definition IsHealthy :: "server \<Rightarrow> bool" where "IsHealthy s = healthy s"

definition IsReady :: "server \<Rightarrow> bool" where "IsReady s = ready s"

definition setAddr :: "string \<Rightarrow> server \<Rightarrow> server" where "setAddr a s = s\<lparr>srv_addr := a\<rparr>"

definition Addr :: "server \<Rightarrow> string" where "Addr s = srv_addr s"

text \<open>The handlers: status and body.\<close>

definition healthz :: "server \<Rightarrow> nat \<times> string" where
  "healthz s = (if healthy s then (200, ''ok'') else (503, ''starting''))"

definition readyz :: "server \<Rightarrow> nat \<times> string" where
  "readyz s = (if ready s then (200, ''ready'') else (503, ''not ready''))"

text \<open>
  The mux of Run, for the paths it registers; \<open>metrics\<close> is the answer of the Prometheus
  handler, and every other path is not found.
\<close>

definition route :: "nat \<times> string \<Rightarrow> string \<Rightarrow> server \<Rightarrow> nat \<times> string" where
  "route metrics path s =
     (if path = ''/healthz'' then healthz s
      else if path = ''/readyz'' then readyz s
      else if path = ''/metrics'' then metrics
      else (404, ''404 page not found'' @ [char_of (10 :: nat)]))"

text \<open>The limits of the http.Server: how long a header, a request, a response and an idle connection may take.\<close>

record http_server =
  hs_Addr :: string
  ReadHeaderTimeout :: duration
  ReadTimeout :: duration
  WriteTimeout :: duration
  IdleTimeout :: duration

definition http_server_of :: "server \<Rightarrow> http_server" where
  "http_server_of s = \<lparr>hs_Addr = configuredAddr s, ReadHeaderTimeout = 5 * second, ReadTimeout = 10 * second,
     WriteTimeout = 10 * second, IdleTimeout = 60 * second\<rparr>"

text \<open>
  Run: \<open>listen\<close> is what net.Listen answers, the bound address or an error; \<open>ended\<close> the case
  its select takes, the end of the context or the return of Serve with its error
  (\<open>None\<close> for http.ErrServerClosed). The results are the returned error, the server, and
  whether Shutdown was called.
\<close>

datatype run_end = ContextDone | Served "string option"

definition server_Run ::
  "(string \<Rightarrow> (string, string) result) \<Rightarrow> run_end \<Rightarrow> server \<Rightarrow> string option \<times> server \<times> bool" where
  "server_Run listen ended s =
     (case listen (configuredAddr s) of
        Inl e \<Rightarrow> (Some e, s, False)
      | Inr a \<Rightarrow>
          (case ended of
             ContextDone \<Rightarrow> (None, setAddr a s, True)
           | Served e \<Rightarrow> (e, setAddr a s, False)))"

text \<open>
  Run reports an error exactly when the port cannot be opened or Serve fails by itself;
  a cancelled context ends it with a graceful shutdown and without an error, and Addr is the
  bound address once the port is open.
\<close>

theorem server_Run_outcome:
  "(case server_Run listen ended s of (err, s', shut) \<Rightarrow>
      (err = None \<longleftrightarrow> (\<exists>a. listen (configuredAddr s) = Inr a) \<and> (ended = ContextDone \<or> ended = Served None))
      \<and> (shut \<longleftrightarrow> is_ok (listen (configuredAddr s)) \<and> ended = ContextDone)
      \<and> Addr s' = (case listen (configuredAddr s) of Inl e \<Rightarrow> Addr s | Inr a \<Rightarrow> a)
      \<and> IsHealthy s' = IsHealthy s \<and> IsReady s' = IsReady s)"
  by (auto simp: server_Run_def is_ok_def Addr_def setAddr_def IsHealthy_def IsReady_def
      split: sum.splits run_end.splits)

section \<open>The order of main.go\<close>

text \<open>
  What happens to the server: main marks it, starts it, or a client probes it. A probe is
  answered only while the server listens.
\<close>

datatype server_event = DoMarkHealthy | DoRun | DoMarkReady | ProbeHealth | ProbeReady

definition is_probe :: "server_event \<Rightarrow> bool" where
  "is_probe e \<longleftrightarrow> e = ProbeHealth \<or> e = ProbeReady"

fun serve_event :: "server_event \<Rightarrow> bool \<times> server \<Rightarrow> (bool \<times> server) \<times> (nat \<times> string) option" where
  "serve_event DoMarkHealthy (up, s) = ((up, MarkHealthy s), None)"
| "serve_event DoRun (up, s) = ((True, s), None)"
| "serve_event DoMarkReady (up, s) = ((up, MarkReady s), None)"
| "serve_event ProbeHealth (up, s) = ((up, s), if up then Some (route (200, []) ''/healthz'' s) else None)"
| "serve_event ProbeReady (up, s) = ((up, s), if up then Some (route (200, []) ''/readyz'' s) else None)"

fun answers :: "server_event list \<Rightarrow> bool \<times> server \<Rightarrow> (nat \<times> string) option list" where
  "answers [] x = []"
| "answers (e # es) x = (case serve_event e x of (x', a) \<Rightarrow> a # answers es x')"

text \<open>
  run of cmd/incuse after a successful start: MarkHealthy, then the goroutine of the server is
  started and MarkReady is called; the goroutine listens before or after that.
\<close>

definition main_events :: "server_event list set" where
  "main_events = {[DoMarkHealthy, DoRun, DoMarkReady], [DoMarkHealthy, DoMarkReady, DoRun]}"

lemma answers_length [simp]: "length (answers es x) = length es"
  by (induction es arbitrary: x) (auto split: prod.splits)

text \<open>The state after a part of a run that leaves \<open>todo\<close> to do.\<close>

definition main_phase :: "server_event list \<Rightarrow> bool \<times> server \<Rightarrow> bool" where
  "main_phase todo x \<longleftrightarrow> (case x of (up, s) \<Rightarrow>
     todo \<in> main_events \<and> \<not> up \<and> \<not> healthy s \<and> \<not> ready s
     \<or> (todo = [DoRun, DoMarkReady] \<or> todo = [DoMarkReady, DoRun]) \<and> \<not> up \<and> healthy s \<and> \<not> ready s
     \<or> todo = [DoRun] \<and> \<not> up \<and> healthy s \<and> ready s
     \<or> todo = [DoMarkReady] \<and> up \<and> healthy s \<and> \<not> ready s
     \<or> todo = [] \<and> up \<and> healthy s \<and> ready s)"

lemma answers_phase:
  assumes "main_phase todo x" "filter (\<lambda>e. \<not> is_probe e) es = todo" "i < length es"
  shows "(es ! i = ProbeHealth \<longrightarrow> answers es x ! i \<in> {None, Some (200, ''ok'')})
     \<and> (answers es x ! i = Some (200, ''ready'') \<longleftrightarrow>
          es ! i = ProbeReady \<and> {DoRun, DoMarkReady} \<inter> set (drop i es) = {})"
  using assms
proof (induction es arbitrary: todo x i)
  case (Cons e es)
  obtain up s where x: "x = (up, s)" by fastforce
  show ?case
  proof (cases i)
    case 0
    have d: "{DoRun, DoMarkReady} \<inter> set (e # es) = {} \<longleftrightarrow> {DoRun, DoMarkReady} \<inter> set todo = {}"
      unfolding Cons.prems(2) [symmetric] by (auto simp: is_probe_def)
    show ?thesis
      using 0 Cons.prems d x
      by (cases e) (auto simp: main_phase_def main_events_def route_def healthz_def readyz_def is_probe_def split: prod.splits)
  next
    case (Suc k)
    let ?todo = "if is_probe e then todo else tl todo"
    have "main_phase ?todo (fst (serve_event e x))" "filter (\<lambda>e. \<not> is_probe e) es = ?todo"
      using Cons.prems(1,2) x
      by (cases e; auto simp: main_phase_def main_events_def is_probe_def MarkHealthy_def MarkReady_def
          split: if_splits)+
    from Cons.IH [OF this, of k] Suc Cons.prems(3) show ?thesis by (simp add: case_prod_beta)
  qed
qed simp

text \<open>
  What a client sees of the probes during a run of the process: /healthz never answers
  anything but ok, for the server starts listening only after MarkHealthy, and /readyz
  answers ready exactly from the moment the server listens and MarkReady has been called.
\<close>

theorem probes_during_run:
  assumes "filter (\<lambda>e. \<not> is_probe e) es \<in> main_events" "i < length es"
  shows "(es ! i = ProbeHealth \<longrightarrow> answers es (False, NewServer a) ! i \<in> {None, Some (200, ''ok'')})
     \<and> (answers es (False, NewServer a) ! i = Some (200, ''ready'') \<longleftrightarrow>
          es ! i = ProbeReady \<and> {DoRun, DoMarkReady} \<inter> set (drop i es) = {})"
  by (rule answers_phase [OF _ refl assms(2)]) (use assms(1) in \<open>simp add: main_phase_def NewServer_def\<close>)

theorem probes_during_run_witness:
  "answers [ProbeHealth, DoMarkHealthy, DoRun, ProbeHealth, ProbeReady, DoMarkReady, ProbeReady] (False, NewServer ''127.0.0.1:9090'')
     = [None, None, None, Some (200, ''ok''), Some (503, ''not ready''), None, Some (200, ''ready'')]"
  using probes_during_run [of "[ProbeHealth, DoMarkHealthy, DoRun, ProbeHealth, ProbeReady, DoMarkReady, ProbeReady]" 3
      "''127.0.0.1:9090''"]
  by (simp add: is_probe_def main_events_def NewServer_def MarkHealthy_def MarkReady_def route_def healthz_def readyz_def)

end
