(* ===== verification/Spec2Isabelle.thy ===== *)
theory Spec2Isabelle imports Orchestrator_Quiescence Orchestrator_Registrations Orchestrator_Targets
  Orchestrator_Handoff Orchestrator_Metrics Orchestrator_Gauge Orchestrator_Sequential Tracker_Refinement
  Recovery Resolver Runtime Health_Server begin

text \<open>
  A verification of incuse, the daemon that runs GitHub Actions runners as short-lived Incus
  instances. One process serves several runner classes. Per class it registers a scale set
  at GitHub and keeps a listener on it; the listener tells the class's orchestrator how many
  runners are wanted and which jobs start and end; the orchestrator registers runners,
  launches an instance for each, and stops instances whose job ended, whose time ran out, or
  which nobody owns.

  \<^bold>\<open>Which theory models what.\<close>

  \<^item> Configuration (src/internal/config/config.go, labels.go): the configuration types, the
    defaults, Validate, Parse and Load, the generated scale-set names and labels.
    Configuration_Correct proves Validate equivalent to a declarative predicate and the names
    injective; Preflight (preflight.go) checks the permissions of the named files. GoRegexp
    has the two patterns of config.go, with a matcher by derivatives proved against their
    languages. The YAML decoder, url.Parse and os.Stat are parameters.
  \<^item> Incus_Types and Incus_Client (src/internal/incus): the adapter over the upstream Incus
    client. The upstream is a record of functions, what the daemon answers; an operation
    returns its result with the requests it made.
  \<^item> Cloudinit and Resolver (src/internal/runner): the two cloud-init templates, and the cached
    look-up of the runner release; an HTTP exchange is a parameter of each call.
  \<^item> Scaleset (src/internal/scaleset): construction, bootstrap, reconciliation of the labels,
    the retry when a session is still open, and the guards of the other operations. GitHub is
    a record of functions.
  \<^item> Naming, Launch, Tracker, Limiter (src/internal/orchestrator): runner names, launch requests,
    the tracker and the counting semaphore. The tracker provides the locale
    \<open>runner_registry\<close>, the limiter the locale \<open>semaphore\<close>; Tracker_Refinement shows that no
    sequence of calls tells the tracker from a finite map.
  \<^item> Goroutine and Orchestrator (orchestrator.go, reaper.go): the goroutines as resumptions. A
    value of type \<open>proc\<close> is what a goroutine still has to do, one constructor per atomic
    operation (a lock section, a channel operation, a wait group, the clock, a call that
    leaves the process) with a continuation for its result; \<open>step\<close> runs one operation on the
    shared state, \<open>sys_step\<close> one transition of the whole orchestrator, \<open>reachable\<close> is the
    reachable states under an assumption on the environment. So every interleaving of
    handlers, spawns, reaper ticks, cancellation and of the classes that share the limiters
    is covered.
  \<^item> Cmd_Incuse, Fleet, Process and Runtime (src/cmd/incuse/main.go): main, the reading of the
    credentials and the start of run; the classes of one process over a store of the limiter
    channels; the fleet a successful start creates; and the errgroup, with the server, the listener and the
    Run of every class, the signal, what Wait returns, the exit status and the deferred calls
    that close the sessions and the connection.
    Deployment has what a valid configuration means for the other components.
  \<^item> Recorder and Health_Server (src/internal/observability): the metrics as the calls made on
    the Prometheus client, and the probes.
  \<^item> Prelude, GoStrings, GoTime: Go's results, 64-bit integers, strings, runes and times, as
    far as the code uses them. Samples and Configuration_Samples hold the concrete inputs the
    witnesses evaluate.

  \<^bold>\<open>What is shown.\<close> Orchestrator_Resources counts what a goroutine owes (reservations, permits,
  tasks) and Orchestrator_Pool derives that the pool never exceeds MaxRunners and that
  nothing blocks for good; Orchestrator_Termination that goroutines take finitely many steps
  between two ticks; Orchestrator_Quiescence puts both together once the context is done. Orchestrator_Registrations follows
  each registration at GitHub until it is used or removed, Orchestrator_Handoff each deferred
  termination until it is carried out, Orchestrator_Targets each name until the instance is
  stopped, Orchestrator_Metrics each launch until it is counted. Orchestrator_Shutdown and
  Orchestrator_Panics are about the end of Run and about panics, Orchestrator_Join about what
  is still running then. Orchestrator_Scenarios has a schedule in which the reaper kills a
  busy runner, Orchestrator_Gauge one after which the gauge of the tracked instances is
  wrong. Orchestrator_Sequential says what each handler and goroutine does when it runs
  alone. Fleet carries all of that over to several classes, Fleet_Quiescence shows that they
  come to rest together although they compete for permits, and Runtime that the process can
  always be stopped and that nothing outlives it. Recovery follows an instance from the
  launch request through the client and the daemon's list to the drift sweep of a later
  process. Cloudinit has a reader of the payload that does not know the templates, and
  Deployment what it finds in the payload of a spawn. An invariant of the system is an interpretation of the locale
  \<open>system_invariant\<close>. Each of these proofs has the same shape: a predicate on \<open>proc\<close> that says what a
  goroutine is bound to do, the lemma that every goroutine of the program satisfies it, and
  the lemma that a step keeps it.

  \<^bold>\<open>Loops and bounds.\<close> The loop of Orchestrator.Run has no bound: a goroutine that comes to
  \<open>Again\<close> continues with the loop head of the program its step is given, so Run ticks for ever
  unless its select takes the case of the context, and then ends through run_shutdown. Safety
  properties hold for all executions. The liveness properties (\<open>fairly_inevitable\<close> in Prelude)
  start from a state in which the context is done. The select may then still prefer a tick,
  and the listener may still call; such events are paid from a budget, and the property holds
  for every budget: they may come at any time and in any number, but not for ever. Everything
  else the goroutines do needs no bound: without ticks a well-founded order on what they still
  have to do decreases. The other loops end by themselves: the retry of the session after
  twenty attempts, trimNewlines with the string.

  \<^bold>\<open>Limiters.\<close> A limiter carries the identity of its channel. NewLimiter and New take the
  identity of the next channel, run_startup numbers them as they are made, and a fleet keeps
  the state of a channel under its identity; so the classes of a process share their limiters
  exactly when run hands them the same ones, which startup_success and process_within_limits
  derive.

  \<^bold>\<open>Assumptions on the environment.\<close> \<open>any_env\<close> allows every answer. \<open>suffix_env\<close> asks that a name
  suffix is one randomNameSuffix can return, eight letters or digits. \<open>trusted_env\<close>, used by
  kills_only_untracked alone, asks two things the code does not check: that a runner name is
  never drawn twice (four random bytes), and that Incus lists under the tags of the class
  only instances this process has named or an earlier one left behind. The properties of the
  scale set and of the recovery name what they take from GitHub's API and from the daemon in
  their hypotheses (\<open>api_faithful\<close>, \<open>keeps_post\<close>).

  \<^bold>\<open>Not modelled.\<close> Log lines and the texts of error messages (errors are constructors). The
  upstream listener: its calls of the three handlers may come at any time, in any number (in
  Runtime one at a time for each class, as it makes them), and it may return anything. The
  network, YAML, JSON, TLS and the Prometheus client, which are libraries. The process
  context is cancelled by a signal at any time, or never. Durations are the integers Go computes, with the
  saturation of Time.Sub; the nil check of a resolver's ReleaseCacheTTL is left out, since
  Validate has refused a nil one. Test files, shell scripts and packaging.
\<close>

end
